theory Spec2Isabelle
  imports Main "HOL-Library.Char_ord" "HOL-Library.List_Lexorder"
begin

text \<open>
  The identifier service of \<^verbatim>\<open>extensions/main.go\<close>: an HTTP handler that claims integer
  identifiers in a shared store with expiring records, a periodic task that counts the
  records, publishes the count to a broker and deletes them, and the start-up that waits
  for the broker. Every call that leaves the process (store, broker, outbound HTTP, log,
  response) is an event of a trace, and the outcome of each such call is an input.
\<close>

section \<open>Library functions the service calls\<close>

subsection \<open>strconv\<close>

text \<open>
  Go's \<^verbatim>\<open>int\<close> is 64 bits wide on the platforms the image is built for. Identifiers and
  counts are modelled as \<open>int\<close>; the only place where the width matters is the range check
  of \<^verbatim>\<open>strconv.Atoi\<close>, which is written out.
\<close>

datatype error = NumError | RedisError | KafkaError | HttpError | MarshalError

definition digit_char :: "nat \<Rightarrow> char" where
  "digit_char d = ''0123456789'' ! d"

definition digit_val :: "char \<Rightarrow> int" where
  "digit_val c = of_char c - 48"

definition is_digit :: "char \<Rightarrow> bool" where
  "is_digit c = (c \<in> set ''0123456789'')"

fun digits :: "nat \<Rightarrow> string" where
  "digits n = (if n < 10 then [digit_char n] else digits (n div 10) @ [digit_char (n mod 10)])"

declare digits.simps [simp del]

definition undigits :: "string \<Rightarrow> int" where
  "undigits ds = foldl (\<lambda>a c. 10 * a + digit_val c) 0 ds"

text \<open>\<^verbatim>\<open>strconv.Itoa\<close>: the decimal form, with a leading minus sign for negative numbers.\<close>

definition Itoa :: "int \<Rightarrow> string" where
  "Itoa i = (if i < 0 then CHR ''-'' # digits (nat (- i)) else digits (nat i))"

text \<open>
  \<^verbatim>\<open>strconv.Atoi\<close>: an optional sign followed by at least one decimal digit and nothing
  else; a value outside the 64-bit signed range is an error. The handler only tests
  \<^verbatim>\<open>err != nil\<close>, so one error value covers the syntax and the range error.
\<close>

definition Atoi :: "string \<Rightarrow> error + int" where
  "Atoi s =
     (let (neg, ds) =
        (case s of
           [] \<Rightarrow> (False, [])
         | c # r \<Rightarrow>
             if c = CHR ''-'' then (True, r)
             else if c = CHR ''+'' then (False, r)
             else (False, s))
      in if ds = [] \<or> \<not> list_all is_digit ds then Inl NumError
         else let n = undigits ds
              in if neg then (if 2 ^ 63 < n then Inl NumError else Inr (- n))
                 else (if 2 ^ 63 \<le> n then Inl NumError else Inr n))"

subsection \<open>time\<close>

text \<open>
  A reading of the wall clock, broken down as \<^verbatim>\<open>time.Now()\<close> holds it; \<open>zone\<close> is the
  offset from UTC in minutes.
\<close>

record gotime =
  year :: nat
  month :: nat
  day :: nat
  hour :: nat
  minute :: nat
  second :: nat
  zone :: int

definition pad2 :: "nat \<Rightarrow> string" where
  "pad2 n = (if n < 10 then CHR ''0'' # digits n else digits n)"

definition pad4 :: "nat \<Rightarrow> string" where
  "pad4 n = replicate (4 - length (digits n)) CHR ''0'' @ digits n"

text \<open>\<^verbatim>\<open>t.Format(time.RFC3339)\<close>, layout \<^verbatim>\<open>2006-01-02T15:04:05Z07:00\<close>.\<close>

definition Format_RFC3339 :: "gotime \<Rightarrow> string" where
  "Format_RFC3339 t =
     pad4 (year t) @ ''-'' @ pad2 (month t) @ ''-'' @ pad2 (day t) @ ''T'' @
     pad2 (hour t) @ '':'' @ pad2 (minute t) @ '':'' @ pad2 (second t) @
     (if zone t = 0 then ''Z''
      else (if zone t < 0 then ''-'' else ''+'') @
           pad2 (nat \<bar>zone t\<bar> div 60) @ '':'' @ pad2 (nat \<bar>zone t\<bar> mod 60))"

subsection \<open>encoding/json\<close>

text \<open>
  The payloads are \<^verbatim>\<open>map[string]interface{}\<close> values holding an \<^verbatim>\<open>int\<close> and a string.
  \<^verbatim>\<open>json.Marshal\<close> writes the keys of a map in sorted order. The strings marshalled here
  are field names and RFC 3339 timestamps, which contain no character that the encoder
  escapes, so a string is written between double quotes as it is.
\<close>

datatype jvalue = JInt int | JString string

definition json_string :: "string \<Rightarrow> string" where
  "json_string s = [CHR 0x22] @ s @ [CHR 0x22]"

fun json_value :: "jvalue \<Rightarrow> string" where
  "json_value (JInt i) = Itoa i"
| "json_value (JString s) = json_string s"

fun json_fields :: "(string \<times> jvalue) list \<Rightarrow> string" where
  "json_fields [] = []"
| "json_fields [(k, v)] = json_string k @ '':'' @ json_value v"
| "json_fields ((k, v) # kvs) = json_string k @ '':'' @ json_value v @ '','' @ json_fields kvs"

definition json_Marshal :: "(string \<times> jvalue) list \<Rightarrow> error + string" where
  "json_Marshal m = Inr (''{'' @ json_fields (sort_key fst m) @ ''}'')"

section \<open>The world the service runs in\<close>

datatype task = SendCount string int | Aggregator

datatype logmsg =
    LogRedisConnectFailed
  | LogKafkaConnected string
  | LogKafkaRetry string nat
  | LogKafkaNotReady
  | LogKafkaDialFailed
  | LogTopicFailed string
  | LogTopicCreated string
  | LogMarshalKafkaFailed
  | LogKafkaWriteFailed
  | LogPublished string
  | LogKeysError
  | LogMarshalPayloadFailed
  | LogPostError string
  | LogSent string nat
  | LogSetNXError
  | LogStarting string

text \<open>
  What the broker answers to one delivery attempt of the writer: an acknowledgement, an
  error the writer takes as temporary, or any other error.
\<close>

datatype produce_reply = Acked | Temporary | Permanent

text \<open>
  What comes back for one HTTP request: nothing (a transport error), or a status with the
  \<^verbatim>\<open>Location\<close> header, resolved against the URL of the request and empty when absent.
\<close>

datatype http_reply = NoResponse | Response nat string

datatype http_method = MethodPost | MethodGet

datatype event =
    RedisPing
  | RedisSetNX string nat
  | RedisKeys string
  | RedisDel string
  | KafkaDial string
  | KafkaClose
  | KafkaCreateTopics string nat nat
  | KafkaWrite string string string
  | HttpPost string string string
  | HttpGet string
  | Sleep nat
  | Log logmsg
  | Respond nat string
  | Go task
  | ListenAndServe string

text \<open>
  The state outside the process and what the process has done so far.
  \<^item> \<open>redis\<close>: the records of the shared store, each with the instant (in milliseconds of
    the store's clock) at which it expires; a record is live while the clock is before
    that instant.
  \<^item> \<open>redis_clock\<close>: the store's clock, advanced by whoever drives the service.
  \<^item> \<open>redis_faults\<close>, \<open>kafka_faults\<close>: the outcome of the coming calls to the store and
    of the coming connections and topic requests to the broker, one entry per call,
    \<open>True\<close> for a call that returns an error; calls beyond the list succeed.
  \<^item> \<open>produce_replies\<close>: the broker's answer to each of the coming delivery attempts of
    the writer; attempts beyond the list are acknowledged.
  \<^item> \<open>http_replies\<close>: what comes back for each of the coming outbound HTTP requests;
    requests beyond the list are answered 200.
  \<^item> \<open>wall\<close>: the reading of \<^verbatim>\<open>time.Now()\<close>.
  \<^item> \<open>environ\<close>: the environment variables.
  \<^item> \<open>trace\<close>: every call to the outside, every request the libraries send for such a
    call, and every log line, oldest first.
\<close>

record world =
  redis :: "(string \<times> nat) list"
  redis_clock :: nat
  redis_faults :: "bool list"
  kafka_faults :: "bool list"
  produce_replies :: "produce_reply list"
  http_replies :: "http_reply list"
  wall :: gotime
  environ :: "(string \<times> string) list"
  trace :: "event list"

definition emit :: "event \<Rightarrow> world \<Rightarrow> world" where
  "emit e w = w\<lparr>trace := trace w @ [e]\<rparr>"

definition log_Printf :: "logmsg \<Rightarrow> world \<Rightarrow> world" where
  "log_Printf m w = emit (Log m) w"

definition next_fault :: "bool list \<Rightarrow> bool" where
  "next_fault fs = (case fs of [] \<Rightarrow> False | b # _ \<Rightarrow> b)"

definition Getenv :: "string \<Rightarrow> world \<Rightarrow> string" where
  "Getenv name w = (case map_of (environ w) name of None \<Rightarrow> [] | Some v \<Rightarrow> v)"

subsection \<open>The store client\<close>

definition redis_live :: "nat \<Rightarrow> (string \<times> nat) list \<Rightarrow> (string \<times> nat) list" where
  "redis_live t s = filter (\<lambda>(k, e). t < e) s"

definition redis_call :: "event \<Rightarrow> world \<Rightarrow> bool \<times> world" where
  "redis_call e w =
     (next_fault (redis_faults w), (emit e w)\<lparr>redis_faults := tl (redis_faults w)\<rparr>)"

definition Ping :: "world \<Rightarrow> error option \<times> world" where
  "Ping w =
     (let (failed, w1) = redis_call RedisPing w
      in (if failed then Some RedisError else None, w1))"

text \<open>
  \<^verbatim>\<open>SetNX(ctx, key, true, ttl)\<close>: writes the record only when no live record has the key,
  and reports whether it wrote.
\<close>

definition SetNX :: "string \<Rightarrow> nat \<Rightarrow> world \<Rightarrow> (error + bool) \<times> world" where
  "SetNX key ttl w =
     (let (failed, w1) = redis_call (RedisSetNX key ttl) w
      in if failed then (Inl RedisError, w1)
         else let s = redis_live (redis_clock w1) (redis w1)
              in if key \<in> fst ` set s then (Inr False, w1\<lparr>redis := s\<rparr>)
                 else (Inr True, w1\<lparr>redis := s @ [(key, redis_clock w1 + ttl)]\<rparr>))"

text \<open>\<^verbatim>\<open>Keys(ctx, "*")\<close>: the keys of all live records.\<close>

definition Keys :: "world \<Rightarrow> (error + string list) \<times> world" where
  "Keys w =
     (let (failed, w1) = redis_call (RedisKeys ''*'') w
      in if failed then (Inl RedisError, w1)
         else let s = redis_live (redis_clock w1) (redis w1)
              in (Inr (map fst s), w1\<lparr>redis := s\<rparr>))"

text \<open>\<^verbatim>\<open>Del(ctx, key)\<close>; the service ignores its result.\<close>

definition Del :: "string \<Rightarrow> world \<Rightarrow> world" where
  "Del key w =
     (let (failed, w1) = redis_call (RedisDel key) w
      in if failed then w1
         else w1\<lparr>redis := filter (\<lambda>(k, e). k \<noteq> key) (redis_live (redis_clock w1) (redis w1))\<rparr>)"

subsection \<open>The broker client\<close>

definition kafka_call :: "event \<Rightarrow> world \<Rightarrow> bool \<times> world" where
  "kafka_call e w =
     (next_fault (kafka_faults w), (emit e w)\<lparr>kafka_faults := tl (kafka_faults w)\<rparr>)"

definition Dial :: "string \<Rightarrow> world \<Rightarrow> bool \<times> world" where
  "Dial broker w = kafka_call (KafkaDial broker) w"

definition CreateTopics :: "string \<Rightarrow> nat \<Rightarrow> nat \<Rightarrow> world \<Rightarrow> bool \<times> world" where
  "CreateTopics topic parts repl w = kafka_call (KafkaCreateTopics topic parts repl) w"

definition next_reply :: "produce_reply list \<Rightarrow> produce_reply" where
  "next_reply rs = (case rs of [] \<Rightarrow> Acked | r # _ \<Rightarrow> r)"

text \<open>
  The writer \<^verbatim>\<open>initKafka\<close> builds sets the address, the topic and the balancer only, so
  \<^verbatim>\<open>MaxAttempts\<close> has the library's default.
\<close>

definition maxAttempts :: nat where
  "maxAttempts = 10"

text \<open>
  The delivery loop of the writer, from the value \<open>attempt\<close> of its counter: each attempt
  sends the message to the broker (the event \<open>KafkaWrite\<close>); an acknowledgement ends the
  loop with success, an error that is not temporary ends it with that error, and a
  temporary error leads to the next attempt, until \<open>maxAttempts\<close> attempts have been made.
  The pause between two attempts is left out.
\<close>

function writeBatch_from :: "nat \<Rightarrow> string \<Rightarrow> string \<Rightarrow> string \<Rightarrow> world \<Rightarrow> bool \<times> world" where
  "writeBatch_from attempt topic k v w =
     (if attempt < maxAttempts then
        (case next_reply (produce_replies w) of
           Acked \<Rightarrow>
             (False, (emit (KafkaWrite topic k v) w)\<lparr>produce_replies := tl (produce_replies w)\<rparr>)
         | Permanent \<Rightarrow>
             (True, (emit (KafkaWrite topic k v) w)\<lparr>produce_replies := tl (produce_replies w)\<rparr>)
         | Temporary \<Rightarrow>
             writeBatch_from (attempt + 1) topic k v
               ((emit (KafkaWrite topic k v) w)\<lparr>produce_replies := tl (produce_replies w)\<rparr>))
      else (True, w))"
  by pat_completeness auto
termination
  by (relation "measure (\<lambda>(attempt, topic, k, v, w). maxAttempts - attempt)") auto

declare writeBatch_from.simps [simp del]

text \<open>
  \<^verbatim>\<open>kafkaWriter.WriteMessages\<close> with one message: one run of the delivery loop. The
  writer's topic is the one \<^verbatim>\<open>initKafka\<close> read from the environment.
\<close>

definition WriteMessages :: "string \<Rightarrow> string \<Rightarrow> string \<Rightarrow> world \<Rightarrow> bool \<times> world" where
  "WriteMessages topic k v w = writeBatch_from 0 topic k v w"

subsection \<open>The HTTP client\<close>

definition next_http :: "http_reply list \<Rightarrow> http_reply" where
  "next_http rs = (case rs of [] \<Rightarrow> Response 200 [] | r # _ \<Rightarrow> r)"

fun request_event :: "http_method \<Rightarrow> string \<Rightarrow> string \<Rightarrow> string \<Rightarrow> event" where
  "request_event MethodPost url ctype body = HttpPost url ctype body"
| "request_event MethodGet url ctype body = HttpGet url"

text \<open>
  The default client of \<^verbatim>\<open>net/http\<close>, after \<open>n\<close> requests of the same call. It follows
  redirects: a 301, 302 or 303 with a \<^verbatim>\<open>Location\<close> is followed by a GET without body, a
  307 or 308 by the same request, body included, sent to the new location. A redirect
  that would need an eleventh request is an error. Any other answer is returned as it is;
  a request that gets no response is an error.
\<close>

function client_do :: "nat \<Rightarrow> http_method \<Rightarrow> string \<Rightarrow> string \<Rightarrow> string \<Rightarrow> world \<Rightarrow> (error + nat) \<times> world" where
  "client_do n m url ctype body w =
     (if 10 \<le> n then (Inl HttpError, w)
      else
        (case next_http (http_replies w) of
           NoResponse \<Rightarrow>
             (Inl HttpError,
              (emit (request_event m url ctype body) w)\<lparr>http_replies := tl (http_replies w)\<rparr>)
         | Response st loc \<Rightarrow>
             if loc \<noteq> [] \<and> (st = 301 \<or> st = 302 \<or> st = 303) then
               client_do (n + 1) MethodGet loc [] []
                 ((emit (request_event m url ctype body) w)\<lparr>http_replies := tl (http_replies w)\<rparr>)
             else if loc \<noteq> [] \<and> (st = 307 \<or> st = 308) then
               client_do (n + 1) m loc ctype body
                 ((emit (request_event m url ctype body) w)\<lparr>http_replies := tl (http_replies w)\<rparr>)
             else
               (Inr st,
                (emit (request_event m url ctype body) w)\<lparr>http_replies := tl (http_replies w)\<rparr>)))"
  by pat_completeness auto
termination
  by (relation "measure (\<lambda>(n, m, url, ctype, body, w). 10 - n)") auto

declare client_do.simps [simp del]

text \<open>\<^verbatim>\<open>http.Post\<close>: a POST through the default client.\<close>

definition http_Post :: "string \<Rightarrow> string \<Rightarrow> string \<Rightarrow> world \<Rightarrow> (error + nat) \<times> world" where
  "http_Post url ctype body w = client_do 0 MethodPost url ctype body w"

section \<open>The service\<close>

text \<open>\<^verbatim>\<open>log.Fatalf\<close> ends the process; every other path goes on.\<close>

datatype outcome = Fatal world | Continue world

definition initRedis :: "world \<Rightarrow> outcome" where
  "initRedis w =
     (let (err, w1) = Ping w
      in if err \<noteq> None then Fatal (log_Printf LogRedisConnectFailed w1) else Continue w1)"

text \<open>The writer \<^verbatim>\<open>initKafka\<close> builds: its address and its topic.\<close>

definition initKafka :: "world \<Rightarrow> string \<times> string" where
  "initKafka w = (Getenv ''KAFKA_BROKER'' w, Getenv ''KAFKA_TOPIC'' w)"

text \<open>
  The loop of \<^verbatim>\<open>waitForKafka\<close>, from the value \<open>i\<close> of its counter. Durations are in
  milliseconds.
\<close>

function waitForKafka_from :: "int \<Rightarrow> string \<Rightarrow> int \<Rightarrow> nat \<Rightarrow> world \<Rightarrow> error option \<times> world" where
  "waitForKafka_from i broker retries delay w =
     (if i < retries then
        (case Dial broker w of
           (False, w1) \<Rightarrow> (None, log_Printf (LogKafkaConnected broker) (emit KafkaClose w1))
         | (True, w1) \<Rightarrow>
             waitForKafka_from (i + 1) broker retries delay
               (emit (Sleep delay) (log_Printf (LogKafkaRetry broker delay) w1)))
      else (Some KafkaError, w))"
  by pat_completeness auto
termination
  by (relation "measure (\<lambda>(i, broker, retries, delay, w). nat (retries - i))") auto

declare waitForKafka_from.simps [simp del]

definition waitForKafka :: "string \<Rightarrow> int \<Rightarrow> nat \<Rightarrow> world \<Rightarrow> error option \<times> world" where
  "waitForKafka broker retries delay w = waitForKafka_from 0 broker retries delay w"

text \<open>
  \<^verbatim>\<open>createKafkaTopic\<close> waits with 10 retries and 5 seconds of delay, dials once more, and
  asks for the topic with one partition and replication factor one. The deferred
  \<^verbatim>\<open>conn.Close()\<close> runs when the function returns, not when \<^verbatim>\<open>log.Fatalf\<close> exits.
\<close>

definition createKafkaTopic :: "string \<Rightarrow> string \<Rightarrow> world \<Rightarrow> outcome" where
  "createKafkaTopic topic broker w =
     (let (err, w1) = waitForKafka broker 10 5000 w
      in if err \<noteq> None then Fatal (log_Printf LogKafkaNotReady w1)
         else let (failed, w2) = Dial broker w1
              in if failed then Fatal (log_Printf LogKafkaDialFailed w2)
                 else let (tfailed, w3) = CreateTopics topic 1 1 w2;
                          w4 = (if tfailed then log_Printf (LogTopicFailed topic) w3
                                else log_Printf (LogTopicCreated topic) w3)
                      in Continue (emit KafkaClose w4))"

definition payload :: "int \<Rightarrow> world \<Rightarrow> (string \<times> jvalue) list" where
  "payload count w =
     [(''unique_request_count'', JInt count),
      (''timestamp'', JString (Format_RFC3339 (wall w)))]"

definition publishToKafka :: "int \<Rightarrow> world \<Rightarrow> world" where
  "publishToKafka count w =
     (case json_Marshal (payload count w) of
        Inl err \<Rightarrow> log_Printf LogMarshalKafkaFailed w
      | Inr message \<Rightarrow>
          (let (failed, w1) = WriteMessages (snd (initKafka w)) ''unique-id-count'' message w
           in if failed then log_Printf LogKafkaWriteFailed w1
              else log_Printf (LogPublished message) w1))"

text \<open>One pass through the body of the loop of \<^verbatim>\<open>logAndNotifyUniqueRequests\<close>.\<close>

definition tick :: "world \<Rightarrow> world" where
  "tick w =
     (case Keys w of
        (Inl err, w1) \<Rightarrow> log_Printf LogKeysError w1
      | (Inr keys, w1) \<Rightarrow>
          (let count = int (length keys);
               w2 = publishToKafka count w1
           in fold Del keys w2))"

text \<open>
  The loop never ends by itself: it runs its body once for every value the ticker
  delivers. The list holds the instants, on the store's clock, of a finite run of
  deliveries.
\<close>

fun logAndNotifyUniqueRequests :: "nat list \<Rightarrow> world \<Rightarrow> world" where
  "logAndNotifyUniqueRequests [] w = w"
| "logAndNotifyUniqueRequests (t # ts) w =
     logAndNotifyUniqueRequests ts (tick (w\<lparr>redis_clock := t\<rparr>))"

definition sendCountToEndpoint :: "string \<Rightarrow> int \<Rightarrow> world \<Rightarrow> world" where
  "sendCountToEndpoint endpoint count w =
     (case json_Marshal (payload count w) of
        Inl err \<Rightarrow> log_Printf LogMarshalPayloadFailed w
      | Inr jsonData \<Rightarrow>
          (case http_Post endpoint ''application/json'' jsonData w of
             (Inl err, w1) \<Rightarrow> log_Printf (LogPostError endpoint) w1
           | (Inr status, w1) \<Rightarrow> log_Printf (LogSent endpoint status) w1))"

text \<open>The time to live of a record is \<^verbatim>\<open>1*time.Minute\<close>, 60000 milliseconds.\<close>

definition isUniqueID :: "int \<Rightarrow> world \<Rightarrow> bool \<times> world" where
  "isUniqueID ident w =
     (let key = Itoa ident
      in case SetNX key 60000 w of
           (Inl err, w1) \<Rightarrow> (False, log_Printf LogSetNXError w1)
         | (Inr result, w1) \<Rightarrow> (result, w1))"

text \<open>
  A request as the handler reads it: the method and the parsed query string.
  \<^verbatim>\<open>query.Get\<close> returns the first value of a parameter, or the empty string.
\<close>

record request =
  Method :: string
  Query :: "(string \<times> string) list"

definition Get :: "(string \<times> string) list \<Rightarrow> string \<Rightarrow> string" where
  "Get q name = (case map_of q name of None \<Rightarrow> [] | Some v \<Rightarrow> v)"

text \<open>\<^verbatim>\<open>http.Error\<close> writes the status and the message followed by a newline.\<close>

definition http_Error :: "string \<Rightarrow> nat \<Rightarrow> world \<Rightarrow> world" where
  "http_Error msg code w = emit (Respond code (msg @ [CHR 0x0A])) w"

text \<open>
  The handler. Its calls of \<^verbatim>\<open>WriteHeader\<close> and \<^verbatim>\<open>Write\<close> together are one \<open>Respond\<close>
  event: the moment the handler has written the response, which the server puts on the
  wire no later than when the handler returns. The
  error of the second enumeration is dropped by the source (\<^verbatim>\<open>keys, _ := ...\<close>), which
  leaves an empty list and so the count 0. The \<^verbatim>\<open>go\<close> statement is the event \<open>Go\<close>; what
  the started task does when it runs is \<open>sendCountToEndpoint\<close>.
\<close>

definition acceptHandler :: "request \<Rightarrow> world \<Rightarrow> world" where
  "acceptHandler r w =
     (if Method r \<noteq> ''GET'' then http_Error ''Only GET method is supported'' 405 w
      else
        let idParam = Get (Query r) ''id'';
            endpoint = Get (Query r) ''endpoint''
        in case Atoi idParam of
             Inl err \<Rightarrow> http_Error ''Invalid or missing 'id' parameter'' 400 w
           | Inr ident \<Rightarrow>
               if ident \<le> 0 then http_Error ''Invalid or missing 'id' parameter'' 400 w
               else
                 (case isUniqueID ident w of
                    (False, w1) \<Rightarrow> emit (Respond 200 ''ok (duplicate), retry with different id'') w1
                  | (True, w1) \<Rightarrow>
                      (let w2 = emit (Respond 200 ''ok'') w1
                       in if endpoint \<noteq> [] then
                            (case Keys w2 of
                               (Inl err, w3) \<Rightarrow> emit (Go (SendCount endpoint 0)) w3
                             | (Inr keys, w3) \<Rightarrow>
                                 emit (Go (SendCount endpoint (int (length keys)))) w3)
                          else w2)))"

text \<open>
  \<^verbatim>\<open>main\<close> up to the moment the server starts to listen. The writer of \<^verbatim>\<open>initKafka\<close>
  touches nothing outside the process.
\<close>

definition main :: "world \<Rightarrow> outcome" where
  "main w =
     (case initRedis w of
        Fatal w' \<Rightarrow> Fatal w'
      | Continue w1 \<Rightarrow>
          (case createKafkaTopic ''unique-id-count'' (Getenv ''KAFKA_BROKER'' w1) w1 of
             Fatal w' \<Rightarrow> Fatal w'
           | Continue w2 \<Rightarrow>
               Continue (emit (ListenAndServe '':8080'')
                          (log_Printf (LogStarting '':8080'') (emit (Go Aggregator) w2)))))"

section \<open>Driving the service\<close>

text \<open>
  A run of claims, one after the other, with no aggregator pass in between: each entry
  is the instant on the store's clock at which the call reaches the store, and the
  identifier claimed. The result lists what each call returned.
\<close>

fun run_claims :: "(nat \<times> int) list \<Rightarrow> world \<Rightarrow> bool list \<times> world" where
  "run_claims [] w = ([], w)"
| "run_claims ((t, i) # cs) w =
     (case isUniqueID i (w\<lparr>redis_clock := t\<rparr>) of
        (b, w1) \<Rightarrow> (case run_claims cs w1 of (bs, w2) \<Rightarrow> (b # bs, w2)))"

text \<open>The identifiers of the calls that returned true, in the order of the calls.\<close>

fun claimed :: "(nat \<times> int) list \<Rightarrow> bool list \<Rightarrow> int list" where
  "claimed ((t, i) # cs) (b # bs) = (if b then i # claimed cs bs else claimed cs bs)"
| "claimed _ _ = []"

text \<open>Reading a trace.\<close>

fun is_publish :: "event \<Rightarrow> bool" where
  "is_publish (KafkaWrite topic k v) = True"
| "is_publish _ = False"

fun is_delete :: "event \<Rightarrow> bool" where
  "is_delete (RedisDel k) = True"
| "is_delete _ = False"

fun is_response :: "event \<Rightarrow> bool" where
  "is_response (Respond code body) = True"
| "is_response _ = False"

fun is_notification :: "event \<Rightarrow> bool" where
  "is_notification (Go (SendCount endpoint n)) = True"
| "is_notification (HttpPost url ctype body) = True"
| "is_notification (HttpGet url) = True"
| "is_notification _ = False"

fun is_http_request :: "event \<Rightarrow> bool" where
  "is_http_request (HttpPost url ctype body) = True"
| "is_http_request (HttpGet url) = True"
| "is_http_request _ = False"

fun is_dial :: "event \<Rightarrow> bool" where
  "is_dial (KafkaDial b) = True"
| "is_dial _ = False"

definition before_publish :: "event list \<Rightarrow> event list" where
  "before_publish tr = takeWhile (\<lambda>e. \<not> is_publish e) tr"

definition from_publish :: "event list \<Rightarrow> event list" where
  "from_publish tr = dropWhile (\<lambda>e. \<not> is_publish e) tr"

text \<open>What \<open>n\<close> failed attempts of \<^verbatim>\<open>waitForKafka\<close> leave in the trace.\<close>

definition failed_attempts :: "string \<Rightarrow> nat \<Rightarrow> nat \<Rightarrow> event list" where
  "failed_attempts broker delay n =
     concat (replicate n [KafkaDial broker, Log (LogKafkaRetry broker delay), Sleep delay])"

text \<open>
  The number of delivery attempts one call of the writer makes, and whether the call
  returns an error, by the answers of the broker: one attempt more than the temporary
  errors at the head of the answers, and never more than \<open>maxAttempts\<close>.
\<close>

definition write_attempts :: "produce_reply list \<Rightarrow> nat" where
  "write_attempts rs = min maxAttempts (Suc (length (takeWhile (\<lambda>r. r = Temporary) rs)))"

definition write_fails :: "produce_reply list \<Rightarrow> bool" where
  "write_fails rs =
     (maxAttempts \<le> length (takeWhile (\<lambda>r. r = Temporary) rs) \<or>
      next_reply (dropWhile (\<lambda>r. r = Temporary) rs) = Permanent)"

text \<open>Whether the client follows an answer with a further request.\<close>

fun redirects :: "http_reply \<Rightarrow> bool" where
  "redirects NoResponse = False"
| "redirects (Response st loc) =
     (loc \<noteq> [] \<and> (st = 301 \<or> st = 302 \<or> st = 303 \<or> st = 307 \<or> st = 308))"

text \<open>
  The log line \<^verbatim>\<open>sendCountToEndpoint\<close> writes when the answer to its POST is the last
  one.
\<close>

fun post_log :: "string \<Rightarrow> http_reply \<Rightarrow> logmsg" where
  "post_log endpoint NoResponse = LogPostError endpoint"
| "post_log endpoint (Response st loc) = LogSent endpoint st"

text \<open>The body \<^verbatim>\<open>http.Error\<close> writes for a bad \<^verbatim>\<open>id\<close>.\<close>

definition bad_request_body :: string where
  "bad_request_body = ''Invalid or missing 'id' parameter'' @ [CHR 0x0A]"

text \<open>The message of one pass of the aggregator, as it goes to the broker.\<close>

definition count_message :: "int \<Rightarrow> world \<Rightarrow> string" where
  "count_message count w =
     ''{'' @ json_string ''timestamp'' @ '':'' @ json_string (Format_RFC3339 (wall w)) @ '','' @
     json_string ''unique_request_count'' @ '':'' @ Itoa count @ ''}''"

subsection \<open>A sample world\<close>

definition noon :: gotime where
  "noon = \<lparr>year = 2024, month = 12, day = 3, hour = 12, minute = 0, second = 7, zone = 0\<rparr>"

definition world0 :: world where
  "world0 =
     \<lparr>redis = [], redis_clock = 0, redis_faults = [], kafka_faults = [],
      produce_replies = [], http_replies = [],
      wall = noon,
      environ = [(''REDIS_HOST'', ''redis''), (''REDIS_PORT'', ''6379''),
                 (''KAFKA_BROKER'', ''kafka:9092''), (''KAFKA_TOPIC'', ''unique-id-count'')],
      trace = []\<rparr>"

text \<open>Two live records and the clock near the end of their minute.\<close>

definition two_claims :: world where
  "two_claims = world0\<lparr>redis := [(''1'', 60000), (''2'', 60500)], redis_clock := 59000\<rparr>"

text \<open>A live record of identifier 5.\<close>

definition dup_world :: world where
  "dup_world = world0\<lparr>redis := [(''5'', 60000)], redis_clock := 1000\<rparr>"

definition get_request :: "string \<Rightarrow> string \<Rightarrow> request" where
  "get_request ident endpoint =
     \<lparr>Method = ''GET'', Query = [(''id'', ident), (''endpoint'', endpoint)]\<rparr>"

section \<open>Facts about the library functions and the clients\<close>

lemma emit_fields [simp]:
  "trace (emit e w) = trace w @ [e]"
  "redis (emit e w) = redis w"
  "redis_clock (emit e w) = redis_clock w"
  "redis_faults (emit e w) = redis_faults w"
  "kafka_faults (emit e w) = kafka_faults w"
  "produce_replies (emit e w) = produce_replies w"
  "http_replies (emit e w) = http_replies w"
  "wall (emit e w) = wall w"
  "environ (emit e w) = environ w"
  by (simp_all add: emit_def)

lemma log_Printf_fields [simp]:
  "trace (log_Printf m w) = trace w @ [Log m]"
  "redis (log_Printf m w) = redis w"
  "redis_clock (log_Printf m w) = redis_clock w"
  "redis_faults (log_Printf m w) = redis_faults w"
  "kafka_faults (log_Printf m w) = kafka_faults w"
  "produce_replies (log_Printf m w) = produce_replies w"
  "http_replies (log_Printf m w) = http_replies w"
  "wall (log_Printf m w) = wall w"
  "environ (log_Printf m w) = environ w"
  by (simp_all add: log_Printf_def)

lemma Getenv_emit [simp]:
  "Getenv n (emit e w) = Getenv n w"
  "Getenv n (log_Printf m w) = Getenv n w"
  by (simp_all add: Getenv_def)

lemma json_Marshal_payload: "json_Marshal (payload count w) = Inr (count_message count w)"
  by (simp add: json_Marshal_def payload_def count_message_def)

lemma Del_fields [simp]:
  "trace (Del k w) = trace w @ [RedisDel k]"
  "redis_clock (Del k w) = redis_clock w"
  "redis_faults (Del k w) = tl (redis_faults w)"
  "kafka_faults (Del k w) = kafka_faults w"
  "produce_replies (Del k w) = produce_replies w"
  "http_replies (Del k w) = http_replies w"
  "wall (Del k w) = wall w"
  "environ (Del k w) = environ w"
  by (simp_all add: Del_def redis_call_def)

lemma fold_Del_trace: "trace (fold Del ks w) = trace w @ map RedisDel ks"
  by (induction ks arbitrary: w) simp_all

lemma Itoa_small: "Itoa 0 = ''0''" "Itoa 1 = ''1''" "Itoa 2 = ''2''" "Itoa 3 = ''3''" "Itoa 5 = ''5''"
  by (simp_all add: Itoa_def digits.simps digit_char_def)

lemma writeBatch_from_run:
  assumes "attempt + m = maxAttempts"
  shows "writeBatch_from attempt topic k v w =
           (m \<le> length (takeWhile (\<lambda>r. r = Temporary) (produce_replies w)) \<or>
            next_reply (dropWhile (\<lambda>r. r = Temporary) (produce_replies w)) = Permanent,
            w\<lparr>produce_replies :=
                 drop (min m (Suc (length (takeWhile (\<lambda>r. r = Temporary) (produce_replies w)))))
                   (produce_replies w),
              trace := trace w @
                 replicate (min m (Suc (length (takeWhile (\<lambda>r. r = Temporary) (produce_replies w)))))
                   (KafkaWrite topic k v)\<rparr>)"
  using assms
proof (induction m arbitrary: attempt w)
  case 0
  then show ?case
    by (subst writeBatch_from.simps) simp
next
  case (Suc m)
  let ?w1 = "(emit (KafkaWrite topic k v) w)\<lparr>produce_replies := tl (produce_replies w)\<rparr>"
  have lt: "attempt < maxAttempts" using Suc.prems by simp
  show ?case
  proof (cases "next_reply (produce_replies w)")
    case Acked
    then show ?thesis
      using lt
      by (subst writeBatch_from.simps)
         (cases "produce_replies w"; simp add: next_reply_def emit_def drop_Suc)
  next
    case Permanent
    then show ?thesis
      using lt
      by (subst writeBatch_from.simps)
         (cases "produce_replies w"; simp add: next_reply_def emit_def drop_Suc)
  next
    case Temporary
    then obtain rs where rs: "produce_replies w = Temporary # rs"
      by (cases "produce_replies w") (auto simp: next_reply_def)
    have step: "writeBatch_from attempt topic k v w = writeBatch_from (attempt + 1) topic k v ?w1"
      using lt Temporary by (subst writeBatch_from.simps) simp
    have "(attempt + 1) + m = maxAttempts" using Suc.prems by simp
    from Suc.IH [OF this, of ?w1] show ?thesis
      by (simp add: step rs emit_def replicate_append_same)
  qed
qed

lemma write_attempts_bounds: "1 \<le> write_attempts rs \<and> write_attempts rs \<le> maxAttempts"
  by (simp add: write_attempts_def maxAttempts_def)

lemma write_attempts_once: "next_reply rs \<noteq> Temporary \<Longrightarrow> write_attempts rs = 1"
  by (cases rs) (simp_all add: write_attempts_def maxAttempts_def next_reply_def)

lemma WriteMessages_unfold:
  "WriteMessages topic k v w =
     (write_fails (produce_replies w),
      w\<lparr>produce_replies := drop (write_attempts (produce_replies w)) (produce_replies w),
        trace := trace w @ replicate (write_attempts (produce_replies w)) (KafkaWrite topic k v)\<rparr>)"
  using writeBatch_from_run [of 0 maxAttempts topic k v w]
  by (simp add: WriteMessages_def write_fails_def write_attempts_def)

lemma publishToKafka_unfold:
  "publishToKafka count w =
     w\<lparr>produce_replies := drop (write_attempts (produce_replies w)) (produce_replies w),
       trace := trace w @
         replicate (write_attempts (produce_replies w))
           (KafkaWrite (Getenv ''KAFKA_TOPIC'' w) ''unique-id-count'' (count_message count w)) @
         [Log (if write_fails (produce_replies w) then LogKafkaWriteFailed
               else LogPublished (count_message count w))]\<rparr>"
  by (simp add: publishToKafka_def json_Marshal_payload WriteMessages_unfold
      initKafka_def log_Printf_def emit_def)

lemma Keys_ok:
  "\<not> next_fault (redis_faults w) \<Longrightarrow>
   Keys w = (Inr (map fst (redis_live (redis_clock w) (redis w))),
             w\<lparr>redis := redis_live (redis_clock w) (redis w),
               redis_faults := tl (redis_faults w),
               trace := trace w @ [RedisKeys ''*'']\<rparr>)"
  by (simp add: Keys_def redis_call_def emit_def Let_def)

lemma Keys_failed:
  "next_fault (redis_faults w) \<Longrightarrow>
   Keys w = (Inl RedisError,
             w\<lparr>redis_faults := tl (redis_faults w), trace := trace w @ [RedisKeys ''*'']\<rparr>)"
  by (simp add: Keys_def redis_call_def emit_def)

lemma redis_live_idem [simp]: "redis_live t (redis_live t s) = redis_live t s"
  by (simp add: redis_live_def)

lemma redis_live_filter: "redis_live t (filter P s) = filter P (redis_live t s)"
  by (induction s) (auto simp: redis_live_def)

lemma tl_no_fault: "True \<notin> set fs \<Longrightarrow> True \<notin> set (tl fs)"
  by (cases fs) auto

lemma no_fault_next: "True \<notin> set fs \<Longrightarrow> \<not> next_fault fs"
  by (cases fs) (auto simp: next_fault_def)

lemma Del_redis_ok:
  "\<not> next_fault (redis_faults w) \<Longrightarrow>
   redis (Del k w) = filter (\<lambda>(k', e). k' \<noteq> k) (redis_live (redis_clock w) (redis w))"
  by (simp add: Del_def redis_call_def)

lemma Del_redis_failed: "next_fault (redis_faults w) \<Longrightarrow> redis (Del k w) = redis w"
  by (simp add: Del_def redis_call_def)

lemma fold_Del_frame [simp]:
  "redis_clock (fold Del ks w) = redis_clock w"
  "kafka_faults (fold Del ks w) = kafka_faults w"
  "produce_replies (fold Del ks w) = produce_replies w"
  "http_replies (fold Del ks w) = http_replies w"
  "wall (fold Del ks w) = wall w"
  "environ (fold Del ks w) = environ w"
  by (induction ks arbitrary: w) simp_all

lemma fold_Del_faults: "redis_faults (fold Del ks w) = drop (length ks) (redis_faults w)"
  by (induction ks arbitrary: w) (simp_all add: drop_Suc drop_tl)

lemma fold_Del_redis:
  assumes "True \<notin> set (redis_faults w)"
    and "redis_live (redis_clock w) (redis w) = redis w"
  shows "redis (fold Del ks w) = filter (\<lambda>(k, e). k \<notin> set ks) (redis w)"
  using assms
proof (induction ks arbitrary: w)
  case Nil
  then show ?case by simp
next
  case (Cons k ks)
  have nf: "\<not> next_fault (redis_faults w)"
    using Cons.prems(1) by (rule no_fault_next)
  have r: "redis (Del k w) = filter (\<lambda>(k', e). k' \<noteq> k) (redis w)"
    using Del_redis_ok [OF nf] Cons.prems(2) by simp
  have "redis (fold Del ks (Del k w)) = filter (\<lambda>(k, e). k \<notin> set ks) (redis (Del k w))"
  proof (rule Cons.IH)
    show "True \<notin> set (redis_faults (Del k w))"
      using Cons.prems(1) by (simp add: tl_no_fault)
    show "redis_live (redis_clock (Del k w)) (redis (Del k w)) = redis (Del k w)"
      using Cons.prems(2) by (simp add: r redis_live_filter)
  qed
  then show ?case
    by (simp add: r) (rule filter_cong, auto)
qed

lemma world_frame_publish [simp]:
  "redis (publishToKafka c w) = redis w"
  "redis_clock (publishToKafka c w) = redis_clock w"
  "redis_faults (publishToKafka c w) = redis_faults w"
  by (simp_all add: publishToKafka_unfold)

lemma tick_ok:
  assumes "\<not> next_fault (redis_faults w)"
  shows "tick w =
           fold Del (map fst (redis_live (redis_clock w) (redis w)))
             (publishToKafka (int (length (redis_live (redis_clock w) (redis w))))
                (w\<lparr>redis := redis_live (redis_clock w) (redis w),
                   redis_faults := tl (redis_faults w),
                   trace := trace w @ [RedisKeys ''*'']\<rparr>))"
  by (simp add: tick_def Keys_ok [OF assms])

lemma tick_failed:
  assumes "next_fault (redis_faults w)"
  shows "tick w = w\<lparr>redis_faults := tl (redis_faults w),
                     trace := trace w @ [RedisKeys ''*'', Log LogKeysError]\<rparr>"
  by (simp add: tick_def Keys_failed [OF assms] log_Printf_def emit_def)

lemma tick_drains:
  assumes "True \<notin> set (redis_faults w)"
  shows "redis (tick w) = []"
proof -
  let ?s = "redis_live (redis_clock w) (redis w)"
  let ?w1 = "publishToKafka (int (length ?s))
                (w\<lparr>redis := ?s, redis_faults := tl (redis_faults w),
                   trace := trace w @ [RedisKeys ''*'']\<rparr>)"
  have "redis (fold Del (map fst ?s) ?w1) = filter (\<lambda>(k, e). k \<notin> set (map fst ?s)) (redis ?w1)"
    by (rule fold_Del_redis) (use assms in \<open>simp_all add: tl_no_fault\<close>)
  also have "\<dots> = []"
    by (force simp: filter_empty_conv)
  finally show ?thesis
    by (simp add: tick_ok [OF no_fault_next [OF assms]])
qed

lemma tick_trace_ok:
  assumes "\<not> next_fault (redis_faults w)"
  shows "trace (tick w) =
           trace w @ [RedisKeys ''*''] @
           replicate (write_attempts (produce_replies w))
             (KafkaWrite (Getenv ''KAFKA_TOPIC'' w) ''unique-id-count''
                (count_message (int (length (redis_live (redis_clock w) (redis w)))) w)) @
           [Log (if write_fails (produce_replies w) then LogKafkaWriteFailed
                 else LogPublished
                   (count_message (int (length (redis_live (redis_clock w) (redis w)))) w))] @
           map RedisDel (map fst (redis_live (redis_clock w) (redis w)))"
  by (simp add: tick_ok [OF assms] fold_Del_trace publishToKafka_unfold Getenv_def count_message_def)

lemma Del_redis:
  "redis (Del k w) =
     (if next_fault (redis_faults w) then redis w
      else filter (\<lambda>(k', e). k' \<noteq> k) (redis_live (redis_clock w) (redis w)))"
  by (simp add: Del_redis_ok Del_redis_failed)

lemma Del_more [simp]: "world.more (Del k w) = world.more w"
  by (simp add: Del_def redis_call_def emit_def)

lemma fold_Del_more [simp]: "world.more (fold Del ks w) = world.more w"
  by (induction ks arbitrary: w) simp_all

lemma fold_Del_redis_cong:
  assumes "redis w = redis w'" and "redis_clock w = redis_clock w'"
    and "redis_faults w = redis_faults w'"
  shows "redis (fold Del ks w) = redis (fold Del ks w')"
  using assms
proof (induction ks arbitrary: w w')
  case Nil
  then show ?case by simp
next
  case (Cons k ks)
  have "redis (fold Del ks (Del k w)) = redis (fold Del ks (Del k w'))"
    by (rule Cons.IH) (simp_all add: Del_redis Cons.prems)
  then show ?case by simp
qed

lemma write_attempts_Acked [simp]: "write_attempts (Acked # rs) = 1"
  by (simp add: write_attempts_def maxAttempts_def)

lemma tick_publish_outcome_irrelevant:
  assumes "\<not> next_fault (redis_faults w)"
  shows "tick w =
           (tick (w\<lparr>produce_replies :=
                      Acked # drop (write_attempts (produce_replies w)) (produce_replies w)\<rparr>))
           \<lparr>trace := trace (tick w)\<rparr>"
proof -
  let ?w' = "w\<lparr>produce_replies :=
                 Acked # drop (write_attempts (produce_replies w)) (produce_replies w)\<rparr>"
  have nf: "\<not> next_fault (redis_faults ?w')" using assms by simp
  note t = tick_ok [OF assms] tick_ok [OF nf]
  show ?thesis
  proof (rule world.equality)
    show "redis (tick w) = redis ((tick ?w')\<lparr>trace := trace (tick w)\<rparr>)"
      by (simp add: t) (rule fold_Del_redis_cong, simp_all)
  qed (simp_all add: t fold_Del_faults publishToKafka_unfold)
qed

lemma Dial_unfold:
  "Dial broker w =
     (next_fault (kafka_faults w),
      w\<lparr>kafka_faults := tl (kafka_faults w), trace := trace w @ [KafkaDial broker]\<rparr>)"
  by (simp add: Dial_def kafka_call_def emit_def)

lemma CreateTopics_unfold:
  "CreateTopics topic p r w =
     (next_fault (kafka_faults w),
      w\<lparr>kafka_faults := tl (kafka_faults w), trace := trace w @ [KafkaCreateTopics topic p r]\<rparr>)"
  by (simp add: CreateTopics_def kafka_call_def emit_def)

lemma failed_attempts_Suc:
  "failed_attempts broker delay (Suc n) =
     [KafkaDial broker, Log (LogKafkaRetry broker delay), Sleep delay] @ failed_attempts broker delay n"
  by (simp add: failed_attempts_def)

lemma waitForKafka_from_exhausted:
  assumes "take n (kafka_faults w) = replicate n True" and "int n = retries - i"
  shows "waitForKafka_from i broker retries delay w =
           (Some KafkaError,
            w\<lparr>kafka_faults := drop n (kafka_faults w),
              trace := trace w @ failed_attempts broker delay n\<rparr>)"
  using assms
proof (induction n arbitrary: i w)
  case 0
  then show ?case
    by (subst waitForKafka_from.simps) (simp add: failed_attempts_def)
next
  case (Suc n)
  from Suc.prems(1) obtain fs where fs: "kafka_faults w = True # fs" "take n fs = replicate n True"
    by (cases "kafka_faults w") auto
  let ?w1 = "emit (Sleep delay) (log_Printf (LogKafkaRetry broker delay)
               (w\<lparr>kafka_faults := tl (kafka_faults w), trace := trace w @ [KafkaDial broker]\<rparr>))"
  have step: "waitForKafka_from i broker retries delay w =
              waitForKafka_from (i + 1) broker retries delay ?w1"
    using Suc.prems(2) fs
    by (subst waitForKafka_from.simps) (simp add: Dial_unfold next_fault_def)
  have "waitForKafka_from (i + 1) broker retries delay ?w1 =
          (Some KafkaError,
           ?w1\<lparr>kafka_faults := drop n (kafka_faults ?w1),
               trace := trace ?w1 @ failed_attempts broker delay n\<rparr>)"
    by (rule Suc.IH) (use Suc.prems(2) fs in simp_all)
  then show ?case
    using fs by (simp add: step failed_attempts_Suc emit_def log_Printf_def)
qed

lemma waitForKafka_from_connects:
  assumes "kafka_faults w = replicate k True @ rest" and "\<not> next_fault rest"
    and "i + int k < retries"
  shows "waitForKafka_from i broker retries delay w =
           (None,
            w\<lparr>kafka_faults := tl rest,
              trace := trace w @ failed_attempts broker delay k @
                       [KafkaDial broker, KafkaClose, Log (LogKafkaConnected broker)]\<rparr>)"
  using assms
proof (induction k arbitrary: i w)
  case 0
  then show ?case
    by (subst waitForKafka_from.simps)
       (simp add: Dial_unfold failed_attempts_def emit_def log_Printf_def)
next
  case (Suc k)
  let ?w1 = "emit (Sleep delay) (log_Printf (LogKafkaRetry broker delay)
               (w\<lparr>kafka_faults := tl (kafka_faults w), trace := trace w @ [KafkaDial broker]\<rparr>))"
  have step: "waitForKafka_from i broker retries delay w =
              waitForKafka_from (i + 1) broker retries delay ?w1"
    using Suc.prems
    by (subst waitForKafka_from.simps) (simp add: Dial_unfold next_fault_def)
  have "waitForKafka_from (i + 1) broker retries delay ?w1 =
          (None,
           ?w1\<lparr>kafka_faults := tl rest,
               trace := trace ?w1 @ failed_attempts broker delay k @
                        [KafkaDial broker, KafkaClose, Log (LogKafkaConnected broker)]\<rparr>)"
    by (rule Suc.IH) (use Suc.prems in simp_all)
  then show ?case
    by (simp add: step failed_attempts_Suc emit_def log_Printf_def)
qed

lemma waitForKafka_from_dials:
  "length (filter is_dial (trace (snd (waitForKafka_from i broker retries delay w)))) \<le>
   length (filter is_dial (trace w)) + nat (retries - i)"
proof (induction i broker retries delay w rule: waitForKafka_from.induct)
  case (1 i broker retries delay w)
  show ?case
  proof (cases "i < retries")
    case False
    then show ?thesis by (subst waitForKafka_from.simps) simp
  next
    case True
    let ?w0 = "w\<lparr>kafka_faults := tl (kafka_faults w), trace := trace w @ [KafkaDial broker]\<rparr>"
    show ?thesis
    proof (cases "next_fault (kafka_faults w)")
      case False
      with True show ?thesis
        by (subst waitForKafka_from.simps) (simp add: Dial_unfold)
    next
      case nf: True
      let ?w1 = "emit (Sleep delay) (log_Printf (LogKafkaRetry broker delay) ?w0)"
      have "length (filter is_dial (trace (snd (waitForKafka_from (i + 1) broker retries delay ?w1)))) \<le>
            length (filter is_dial (trace ?w1)) + nat (retries - (i + 1))"
        using "1.IH" True nf by (simp add: Dial_unfold)
      moreover have "waitForKafka_from i broker retries delay w =
                     waitForKafka_from (i + 1) broker retries delay ?w1"
        using True nf by (subst waitForKafka_from.simps) (simp add: Dial_unfold)
      ultimately show ?thesis using True by simp
    qed
  qed
qed

lemma createKafkaTopic_fatal:
  assumes "take 10 (kafka_faults w) = replicate 10 True"
  shows "createKafkaTopic topic broker w =
           Fatal (w\<lparr>kafka_faults := drop 10 (kafka_faults w),
                    trace := trace w @ failed_attempts broker 5000 10 @ [Log LogKafkaNotReady]\<rparr>)"
  using waitForKafka_from_exhausted [OF assms, of 10 0 broker 5000]
  by (simp add: createKafkaTopic_def waitForKafka_def log_Printf_def emit_def)

lemma createKafkaTopic_continues:
  assumes "kafka_faults w = replicate k True @ rest" and "k < 10"
    and "\<not> next_fault rest" and "\<not> next_fault (tl rest)"
  shows "createKafkaTopic topic broker w =
           Continue (w\<lparr>kafka_faults := tl (tl (tl rest)),
                       trace := trace w @ failed_attempts broker 5000 k @
                         [KafkaDial broker, KafkaClose, Log (LogKafkaConnected broker),
                          KafkaDial broker, KafkaCreateTopics topic 1 1,
                          Log (if next_fault (tl (tl rest)) then LogTopicFailed topic
                               else LogTopicCreated topic),
                          KafkaClose]\<rparr>)"
proof -
  have "waitForKafka broker 10 5000 w =
          (None,
           w\<lparr>kafka_faults := tl rest,
             trace := trace w @ failed_attempts broker 5000 k @
                      [KafkaDial broker, KafkaClose, Log (LogKafkaConnected broker)]\<rparr>)"
    unfolding waitForKafka_def
    by (rule waitForKafka_from_connects [OF assms(1) assms(3)]) (use assms(2) in simp)
  then show ?thesis
    using assms(4)
    by (simp add: createKafkaTopic_def Dial_unfold CreateTopics_unfold log_Printf_def emit_def)
qed

lemma initRedis_ok:
  "\<not> next_fault (redis_faults w) \<Longrightarrow>
   initRedis w = Continue (w\<lparr>redis_faults := tl (redis_faults w), trace := trace w @ [RedisPing]\<rparr>)"
  by (simp add: initRedis_def Ping_def redis_call_def emit_def)

lemma Atoi_empty: "Atoi [] = Inl NumError"
  by (simp add: Atoi_def)

lemma Get_missing: "map_of q name = None \<Longrightarrow> Get q name = []"
  by (simp add: Get_def)

lemma isUniqueID_ok:
  assumes "\<not> next_fault (redis_faults w)"
  shows "isUniqueID i w =
           (Itoa i \<notin> fst ` set (redis_live (redis_clock w) (redis w)),
            w\<lparr>redis := (if Itoa i \<in> fst ` set (redis_live (redis_clock w) (redis w))
                          then redis_live (redis_clock w) (redis w)
                          else redis_live (redis_clock w) (redis w) @
                               [(Itoa i, redis_clock w + 60000)]),
              redis_faults := tl (redis_faults w),
              trace := trace w @ [RedisSetNX (Itoa i) 60000]\<rparr>)"
  using assms by (simp add: isUniqueID_def SetNX_def redis_call_def emit_def Let_def)

lemma isUniqueID_failed:
  assumes "next_fault (redis_faults w)"
  shows "isUniqueID i w =
           (False, w\<lparr>redis_faults := tl (redis_faults w),
                     trace := trace w @ [RedisSetNX (Itoa i) 60000, Log LogSetNXError]\<rparr>)"
  using assms by (simp add: isUniqueID_def SetNX_def redis_call_def log_Printf_def emit_def)

lemma isUniqueID_true_no_fault: "fst (isUniqueID i w) \<Longrightarrow> \<not> next_fault (redis_faults w)"
  using isUniqueID_failed [of w i] by auto

lemma isUniqueID_trace_prefix:
  "trace (snd (isUniqueID i w)) =
     trace w @ RedisSetNX (Itoa i) 60000 #
       (if next_fault (redis_faults w) then [Log LogSetNXError] else [])"
  by (cases "next_fault (redis_faults w)") (simp_all add: isUniqueID_ok isUniqueID_failed)

lemma acceptHandler_valid:
  assumes "Method r = ''GET''" and "Atoi (Get (Query r) ''id'') = Inr i" and "0 < i"
  shows "acceptHandler r w =
           (case isUniqueID i w of
              (False, w1) \<Rightarrow> emit (Respond 200 ''ok (duplicate), retry with different id'') w1
            | (True, w1) \<Rightarrow>
                if Get (Query r) ''endpoint'' \<noteq> [] then
                  (case Keys (emit (Respond 200 ''ok'') w1) of
                     (Inl err, w3) \<Rightarrow> emit (Go (SendCount (Get (Query r) ''endpoint'') 0)) w3
                   | (Inr keys, w3) \<Rightarrow>
                       emit (Go (SendCount (Get (Query r) ''endpoint'') (int (length keys)))) w3)
                else emit (Respond 200 ''ok'') w1)"
  using assms by (simp add: acceptHandler_def Let_def split: prod.splits bool.splits)

lemma client_do_last:
  assumes "n < 10" and "\<not> redirects (next_http (http_replies w))"
  shows "client_do n m url ctype body w =
           ((case next_http (http_replies w) of
               NoResponse \<Rightarrow> Inl HttpError
             | Response st loc \<Rightarrow> Inr st),
            w\<lparr>http_replies := tl (http_replies w),
              trace := trace w @ [request_event m url ctype body]\<rparr>)"
  using assms
  by (subst client_do.simps) (auto simp: emit_def split: http_reply.splits)

lemma client_do_events:
  "\<exists>evs. trace (snd (client_do n m url ctype body w)) = trace w @ evs \<and>
         filter is_http_request evs = evs \<and> filter is_response evs = [] \<and>
         length evs \<le> 10 - n \<and>
         (n < 10 \<longrightarrow> take 1 evs = [request_event m url ctype body])"
proof (induction n m url ctype body w rule: client_do.induct)
  case (1 n m url ctype body w)
  let ?w1 = "(emit (request_event m url ctype body) w)\<lparr>http_replies := tl (http_replies w)\<rparr>"
  have ev: "is_http_request (request_event m url ctype body)"
           "\<not> is_response (request_event m url ctype body)"
    by (cases m; simp)+
  show ?case
  proof (cases "10 \<le> n")
    case True
    then show ?thesis by (subst client_do.simps) simp
  next
    case False
    note n = this
    show ?thesis
    proof (cases "redirects (next_http (http_replies w))")
      case False
      then show ?thesis
        using n ev by (simp add: client_do_last)
    next
      case True
      then obtain st loc where r: "next_http (http_replies w) = Response st loc" "loc \<noteq> []"
          "st = 301 \<or> st = 302 \<or> st = 303 \<or> st = 307 \<or> st = 308"
        by (cases "next_http (http_replies w)") auto
      show ?thesis
      proof (cases "st = 301 \<or> st = 302 \<or> st = 303")
        case True
        from "1.IH"(1) [OF n r(1)] r(2) True
        obtain evs where e: "trace (snd (client_do (n + 1) MethodGet loc [] [] ?w1)) = trace ?w1 @ evs"
            "filter is_http_request evs = evs" "filter is_response evs = []"
            "length evs \<le> 10 - (n + 1)"
          by auto
        have c: "client_do n m url ctype body w = client_do (n + 1) MethodGet loc [] [] ?w1"
          using n r True by (subst client_do.simps) simp
        show ?thesis
          using e n ev
          by (intro exI [of _ "request_event m url ctype body # evs"]) (simp add: c)
      next
        case False
        with r(3) have s: "st = 307 \<or> st = 308" by auto
        from "1.IH"(2) [OF n r(1)] r(2) False s
        obtain evs where e: "trace (snd (client_do (n + 1) m loc ctype body ?w1)) = trace ?w1 @ evs"
            "filter is_http_request evs = evs" "filter is_response evs = []"
            "length evs \<le> 10 - (n + 1)"
          by auto
        have c: "client_do n m url ctype body w = client_do (n + 1) m loc ctype body ?w1"
          using n r False s by (subst client_do.simps) simp
        show ?thesis
          using e n ev
          by (intro exI [of _ "request_event m url ctype body # evs"]) (simp add: c)
      qed
    qed
  qed
qed

lemma sendCountToEndpoint_trace:
  "trace (sendCountToEndpoint endpoint count w) =
     trace (snd (http_Post endpoint ''application/json'' (count_message count w) w)) @
     [Log (case fst (http_Post endpoint ''application/json'' (count_message count w) w) of
             Inl err \<Rightarrow> LogPostError endpoint
           | Inr status \<Rightarrow> LogSent endpoint status)]"
  by (simp add: sendCountToEndpoint_def json_Marshal_payload split: prod.splits sum.splits)

lemma sendCountToEndpoint_last:
  assumes "\<not> redirects (next_http (http_replies w))"
  shows "sendCountToEndpoint endpoint count w =
           w\<lparr>http_replies := tl (http_replies w),
             trace := trace w @
               [HttpPost endpoint ''application/json'' (count_message count w),
                Log (post_log endpoint (next_http (http_replies w)))]\<rparr>"
  using client_do_last [of 0 w MethodPost endpoint "''application/json''" "count_message count w"] assms
  by (simp add: sendCountToEndpoint_def json_Marshal_payload http_Post_def log_Printf_def
      emit_def split: http_reply.splits)

lemma sendCountToEndpoint_events:
  "\<exists>evs l. trace (sendCountToEndpoint endpoint count w) = trace w @ evs @ [Log l] \<and>
           filter is_http_request evs = evs \<and> filter is_response evs = [] \<and>
           length evs \<le> 10 \<and>
           take 1 evs = [HttpPost endpoint ''application/json'' (count_message count w)]"
proof -
  obtain evs where e:
      "trace (snd (client_do 0 MethodPost endpoint ''application/json'' (count_message count w) w)) =
         trace w @ evs"
      "filter is_http_request evs = evs" "filter is_response evs = []" "length evs \<le> 10 - 0"
      "take 1 evs = [request_event MethodPost endpoint ''application/json'' (count_message count w)]"
    using client_do_events [of 0 MethodPost endpoint "''application/json''" "count_message count w" w]
    by auto
  then show ?thesis
    by (simp add: sendCountToEndpoint_trace http_Post_def)
qed

lemma acceptHandler_unique_trace:
  assumes "Method r = ''GET''" and "Atoi (Get (Query r) ''id'') = Inr i" and "0 < i"
    and "fst (isUniqueID i w)"
  shows "trace (acceptHandler r w) =
           trace w @ RedisSetNX (Itoa i) 60000 # Respond 200 ''ok'' #
             (if Get (Query r) ''endpoint'' = [] then []
              else [RedisKeys ''*'',
                    Go (SendCount (Get (Query r) ''endpoint'')
                          (if next_fault (redis_faults (snd (isUniqueID i w))) then 0
                           else int (length (redis_live (redis_clock w)
                                      (redis (snd (isUniqueID i w)))))))])"
proof -
  have nf: "\<not> next_fault (redis_faults w)"
    using assms(4) by (rule isUniqueID_true_no_fault)
  obtain w1 where u: "isUniqueID i w = (True, w1)"
    using assms(4) by (cases "isUniqueID i w") auto
  have t1: "trace w1 = trace w @ [RedisSetNX (Itoa i) 60000]" and c1: "redis_clock w1 = redis_clock w"
    using u isUniqueID_ok [OF nf, of i] by auto
  show ?thesis
  proof (cases "next_fault (redis_faults w1)")
    case True
    then show ?thesis
      using Keys_failed [of "emit (Respond 200 ''ok'') w1"]
      by (simp add: acceptHandler_valid [OF assms(1-3)] u t1)
  next
    case False
    then show ?thesis
      using Keys_ok [of "emit (Respond 200 ''ok'') w1"]
      by (simp add: acceptHandler_valid [OF assms(1-3)] u t1 c1)
  qed
qed

lemma acceptHandler_duplicate_trace:
  assumes "Method r = ''GET''" and "Atoi (Get (Query r) ''id'') = Inr i" and "0 < i"
    and "\<not> fst (isUniqueID i w)"
  shows "trace (acceptHandler r w) =
           trace w @ RedisSetNX (Itoa i) 60000 #
             (if next_fault (redis_faults w) then [Log LogSetNXError] else []) @
             [Respond 200 ''ok (duplicate), retry with different id'']"
proof -
  obtain w1 where u: "isUniqueID i w = (False, w1)"
    using assms(4) by (cases "isUniqueID i w") auto
  have "trace w1 = trace w @ RedisSetNX (Itoa i) 60000 #
          (if next_fault (redis_faults w) then [Log LogSetNXError] else [])"
    using isUniqueID_trace_prefix [of i w] u by simp
  then show ?thesis
    by (simp add: acceptHandler_valid [OF assms(1-3)] u)
qed

lemma digit_cases: "d < 10 \<Longrightarrow> d \<in> {0, 1, 2, 3, 4, 5, 6, 7, 8, 9 :: nat}"
  by auto

lemma digit_val_digit_char: "d < 10 \<Longrightarrow> digit_val (digit_char d) = int d"
  using digit_cases [of d] by (auto simp: digit_char_def digit_val_def)

lemma digit_char_not_minus: "d < 10 \<Longrightarrow> digit_char d \<noteq> CHR ''-''"
  using digit_cases [of d] by (auto simp: digit_char_def)

lemma undigits_snoc: "undigits (ds @ [c]) = 10 * undigits ds + digit_val c"
  by (simp add: undigits_def)

lemma undigits_digits: "undigits (digits n) = int n"
proof (induction n rule: digits.induct)
  case (1 n)
  show ?case
  proof (cases "n < 10")
    case True
    then show ?thesis
      by (subst digits.simps) (simp add: undigits_def digit_val_digit_char)
  next
    case False
    then have "undigits (digits (n div 10)) = int (n div 10)"
      using "1.IH" by simp
    with False show ?thesis
      by (subst digits.simps) (simp add: undigits_snoc digit_val_digit_char zdiv_int zmod_int)
  qed
qed

lemma hd_digits_not_minus: "digits n \<noteq> [] \<and> hd (digits n) \<noteq> CHR ''-''"
proof (induction n rule: digits.induct)
  case (1 n)
  show ?case
  proof (cases "n < 10")
    case True
    then show ?thesis
      by (subst digits.simps, subst digits.simps) (simp add: digit_char_not_minus)
  next
    case False
    then have "digits (n div 10) \<noteq> [] \<and> hd (digits (n div 10)) \<noteq> CHR ''-''"
      using "1.IH" by simp
    with False show ?thesis
      by (subst digits.simps, subst (2) digits.simps) simp
  qed
qed

lemma Itoa_inj: "Itoa i = Itoa j \<Longrightarrow> i = j"
proof -
  assume eq: "Itoa i = Itoa j"
  have neq: "\<And>a b. CHR ''-'' # digits a \<noteq> digits b"
  proof
    fix a b assume "CHR ''-'' # digits a = digits b"
    then have "hd (digits b) = CHR ''-''" by (metis list.sel(1))
    then show False using hd_digits_not_minus [of b] by simp
  qed
  have dinj: "\<And>a b. digits a = digits b \<Longrightarrow> a = b"
  proof -
    fix a b assume "digits a = digits b"
    then have "undigits (digits a) = undigits (digits b)" by simp
    then show "a = b" by (simp add: undigits_digits)
  qed
  show ?thesis
  proof (cases "i < 0")
    case True
    note i = this
    show ?thesis
    proof (cases "j < 0")
      case True
      with i eq have "digits (nat (- i)) = digits (nat (- j))" by (simp add: Itoa_def)
      then have "nat (- i) = nat (- j)" by (rule dinj)
      with i True show ?thesis by simp
    next
      case False
      with i eq neq [of "nat (- i)" "nat j"] show ?thesis by (simp add: Itoa_def)
    qed
  next
    case False
    note i = this
    show ?thesis
    proof (cases "j < 0")
      case True
      with i eq neq [of "nat (- j)" "nat i"] show ?thesis by (simp add: Itoa_def)
    next
      case False
      with i eq have "digits (nat i) = digits (nat j)" by (simp add: Itoa_def)
      then have "nat i = nat j" by (rule dinj)
      with i False show ?thesis by simp
    qed
  qed
qed

lemma Itoa_eq_iff [simp]: "Itoa i = Itoa j \<longleftrightarrow> i = j"
  using Itoa_inj by auto

lemma redis_live_all: "\<forall>(k, e) \<in> set s. t < e \<Longrightarrow> redis_live t s = s"
  by (induction s) (auto simp: redis_live_def)

lemma run_claims_length: "run_claims cs w = (bs, w1) \<Longrightarrow> length bs = length cs"
  by (induction cs arbitrary: w bs w1) (auto split: prod.splits)

lemma isUniqueID_frame [simp]:
  "wall (snd (isUniqueID i w)) = wall w"
  "environ (snd (isUniqueID i w)) = environ w"
  "kafka_faults (snd (isUniqueID i w)) = kafka_faults w"
  "redis_clock (snd (isUniqueID i w)) = redis_clock w"
  by (cases "next_fault (redis_faults w)"; simp add: isUniqueID_ok isUniqueID_failed)+

lemma run_claims_frame:
  "run_claims cs w = (bs, w1) \<Longrightarrow>
   wall w1 = wall w \<and> environ w1 = environ w \<and> kafka_faults w1 = kafka_faults w"
proof (induction cs arbitrary: w bs w1)
  case Nil
  then show ?case by simp
next
  case (Cons c cs)
  obtain t i where c: "c = (t, i)" by (cases c)
  obtain b w' where u: "isUniqueID i (w\<lparr>redis_clock := t\<rparr>) = (b, w')"
    by (cases "isUniqueID i (w\<lparr>redis_clock := t\<rparr>)")
  obtain bs' where r: "run_claims cs w' = (bs', w1)"
    using Cons.prems c u by (auto split: prod.splits)
  have "wall w' = wall w \<and> environ w' = environ w \<and> kafka_faults w' = kafka_faults w"
    using isUniqueID_frame [of i "w\<lparr>redis_clock := t\<rparr>"] u by simp
  with Cons.IH [OF r] show ?case by simp
qed

lemma claim_step_window:
  assumes "map fst (redis w) = map Itoa ids" and "distinct ids"
    and "\<forall>(k, e) \<in> set (redis w). T < e"
    and "t \<le> T" and "T < t + 60000"
    and "isUniqueID i (w\<lparr>redis_clock := t\<rparr>) = (b, w1)"
  shows "map fst (redis w1) = map Itoa (if b then ids @ [i] else ids) \<and>
         distinct (if b then ids @ [i] else ids) \<and>
         (\<forall>(k, e) \<in> set (redis w1). T < e)"
proof (cases "next_fault (redis_faults w)")
  case True
  then show ?thesis
    using assms isUniqueID_failed [of "w\<lparr>redis_clock := t\<rparr>" i] by auto
next
  case False
  have live: "redis_live t (redis w) = redis w"
    by (rule redis_live_all) (use assms(3,4) in auto)
  have keys: "fst ` set (redis w) = Itoa ` set ids"
    using assms(1) by (metis list.set_map)
  have "b = (i \<notin> set ids)" and "redis w1 = (if b then redis w @ [(Itoa i, t + 60000)] else redis w)"
    using assms(6) isUniqueID_ok [of "w\<lparr>redis_clock := t\<rparr>" i] False live keys by auto
  then show ?thesis
    using assms(1,2,3,5) by auto
qed

lemma run_claims_window:
  assumes "map fst (redis w) = map Itoa ids" and "distinct ids"
    and "\<forall>(k, e) \<in> set (redis w). T < e"
    and "\<forall>(t, i) \<in> set cs. t \<le> T \<and> T < t + 60000"
    and "run_claims cs w = (bs, w1)"
  shows "map fst (redis w1) = map Itoa (ids @ claimed cs bs) \<and>
         distinct (ids @ claimed cs bs) \<and>
         (\<forall>(k, e) \<in> set (redis w1). T < e)"
  using assms
proof (induction cs arbitrary: w ids bs)
  case Nil
  then show ?case by auto
next
  case (Cons c cs)
  obtain t i where c: "c = (t, i)" by (cases c)
  obtain b w' where u: "isUniqueID i (w\<lparr>redis_clock := t\<rparr>) = (b, w')"
    by (cases "isUniqueID i (w\<lparr>redis_clock := t\<rparr>)")
  obtain bs' where r: "run_claims cs w' = (bs', w1)" and bs: "bs = b # bs'"
    using Cons.prems(5) c u by (auto split: prod.splits)
  let ?ids = "if b then ids @ [i] else ids"
  have t: "t \<le> T" "T < t + 60000"
    using Cons.prems(4) c by auto
  have step: "map fst (redis w') = map Itoa ?ids \<and> distinct ?ids \<and>
              (\<forall>(k, e) \<in> set (redis w'). T < e)"
    by (rule claim_step_window [OF Cons.prems(1-3) t u])
  have rest: "\<forall>(t, i) \<in> set cs. t \<le> T \<and> T < t + 60000"
    using Cons.prems(4) by simp
  have "map fst (redis w1) = map Itoa (?ids @ claimed cs bs') \<and>
        distinct (?ids @ claimed cs bs') \<and>
        (\<forall>(k, e) \<in> set (redis w1). T < e)"
    using Cons.IH [OF _ _ _ rest r, of ?ids] step by blast
  then show ?case
    by (cases b) (auto simp: c bs)
qed

lemma no_publish_in_deletes [simp]: "filter is_publish (map RedisDel ks) = []"
  by (induction ks) simp_all

lemma count_message_clock [simp]: "count_message n (w\<lparr>redis_clock := t\<rparr>) = count_message n w"
  by (simp add: count_message_def)

lemma Getenv_clock [simp]: "Getenv n (w\<lparr>redis_clock := t\<rparr>) = Getenv n w"
  by (simp add: Getenv_def)








lemmas writer_eval = write_attempts_def write_fails_def next_reply_def maxAttempts_def

lemma write_attempts_Suc: "write_attempts rs = Suc (write_attempts rs - 1)"
  using write_attempts_bounds [of rs] by simp

section \<open>The deduplicator\<close>

text \<open>
  C3. When the call to the store returns an error, \<open>isUniqueID\<close> answers false and
  writes the error to the log; it writes nothing to the store. So a call that errored
  never answers true.
\<close>

theorem isUniqueID_fail_closed:
  assumes "next_fault (redis_faults w)"
  shows "isUniqueID i w =
           (False, w\<lparr>redis_faults := tl (redis_faults w),
                     trace := trace w @ [RedisSetNX (Itoa i) 60000, Log LogSetNXError]\<rparr>)"
  using assms by (simp add: isUniqueID_def SetNX_def redis_call_def log_Printf_def emit_def)

theorem isUniqueID_fail_closed_witness:
  "next_fault [True] \<and>
   isUniqueID 5 (world0\<lparr>redis_faults := [True]\<rparr>) =
     (False, world0\<lparr>redis_faults := [], trace := [RedisSetNX ''5'' 60000, Log LogSetNXError]\<rparr>)"
  using isUniqueID_fail_closed [of "world0\<lparr>redis_faults := [True]\<rparr>" 5]
  by (simp add: next_fault_def world0_def Itoa_def digits.simps digit_char_def)



section \<open>The publisher\<close>




section \<open>The aggregator\<close>

text \<open>
  C8. When the enumeration of the store fails, the pass does nothing but log the error:
  nothing is published, nothing is deleted, the store is as it was. The loop then takes
  the next delivery of the ticker.
\<close>

theorem tick_skipped_when_enumeration_fails:
  assumes "next_fault (redis_faults w)"
  shows "tick w = w\<lparr>redis_faults := tl (redis_faults w),
                     trace := trace w @ [RedisKeys ''*'', Log LogKeysError]\<rparr> \<and>
         logAndNotifyUniqueRequests (t # ts) w =
           logAndNotifyUniqueRequests ts
             (w\<lparr>redis_clock := t, redis_faults := tl (redis_faults w),
                trace := trace w @ [RedisKeys ''*'', Log LogKeysError]\<rparr>)"
  using assms by (simp add: tick_failed)

theorem tick_skipped_when_enumeration_fails_witness:
  "next_fault [True] \<and>
   tick (two_claims\<lparr>redis_faults := [True]\<rparr>) =
     two_claims\<lparr>redis_faults := [], trace := [RedisKeys ''*'', Log LogKeysError]\<rparr> \<and>
   trace (logAndNotifyUniqueRequests [59000, 59500] (two_claims\<lparr>redis_faults := [True]\<rparr>)) =
     [RedisKeys ''*'', Log LogKeysError, RedisKeys ''*'',
      KafkaWrite ''unique-id-count'' ''unique-id-count'' (count_message 2 world0),
      Log (LogPublished (count_message 2 world0)),
      RedisDel ''1'', RedisDel ''2'']"
  using tick_skipped_when_enumeration_fails [of "two_claims\<lparr>redis_faults := [True]\<rparr>" 59000 "[59500]"]
  by (simp add: two_claims_def world0_def next_fault_def tick_trace_ok redis_live_def Getenv_def
      count_message_def writer_eval)


text \<open>
  C10. When the call of the writer fails, the pass still issues a delete for every key it
  enumerated. Apart from the trace, the world after the pass is the one an acknowledged
  write would have left: nothing remembers the count that was not delivered. When no call
  to the store fails, the store is empty after the pass.
\<close>

theorem drain_not_conditional_on_publish:
  assumes "\<not> next_fault (redis_faults w)" and "write_fails (produce_replies w)"
  shows "trace (tick w) =
           trace w @ [RedisKeys ''*''] @
           replicate (write_attempts (produce_replies w))
             (KafkaWrite (Getenv ''KAFKA_TOPIC'' w) ''unique-id-count''
                (count_message (int (length (redis_live (redis_clock w) (redis w)))) w)) @
           [Log LogKafkaWriteFailed] @
           map RedisDel (map fst (redis_live (redis_clock w) (redis w))) \<and>
         tick w =
           (tick (w\<lparr>produce_replies :=
                      Acked # drop (write_attempts (produce_replies w)) (produce_replies w)\<rparr>))
           \<lparr>trace := trace (tick w)\<rparr> \<and>
         (True \<notin> set (redis_faults w) \<longrightarrow> redis (tick w) = [])"
proof -
  have "tick w =
           (tick (w\<lparr>produce_replies :=
                      Acked # drop (write_attempts (produce_replies w)) (produce_replies w)\<rparr>))
           \<lparr>trace := trace (tick w)\<rparr>"
    by (rule tick_publish_outcome_irrelevant [OF assms(1)])
  then show ?thesis
    using assms tick_drains [of w] by (simp add: tick_trace_ok [OF assms(1)])
qed

theorem drain_not_conditional_on_publish_witness:
  "\<not> next_fault [] \<and> write_fails [Permanent] \<and>
   trace (tick (two_claims\<lparr>produce_replies := [Permanent]\<rparr>)) =
     [RedisKeys ''*'',
      KafkaWrite ''unique-id-count'' ''unique-id-count'' (count_message 2 world0),
      Log LogKafkaWriteFailed, RedisDel ''1'', RedisDel ''2''] \<and>
   redis (tick (two_claims\<lparr>produce_replies := [Permanent]\<rparr>)) = []"
  using drain_not_conditional_on_publish [of "two_claims\<lparr>produce_replies := [Permanent]\<rparr>"]
  by (simp add: two_claims_def world0_def next_fault_def redis_live_def Getenv_def
      count_message_def writer_eval)

text \<open>
  C2. The order within a pass. The claim puts the deletion of the records before the call
  to the publisher; the pass does it the other way round. With two live records it
  deletes nothing before the write to the broker and both records after it.
\<close>

theorem delete_before_publish_counterexample:
  "filter is_delete (before_publish (trace (tick two_claims))) = [] \<and>
   filter is_delete (from_publish (trace (tick two_claims))) = [RedisDel ''1'', RedisDel ''2''] \<and>
   hd (from_publish (trace (tick two_claims))) =
     KafkaWrite ''unique-id-count'' ''unique-id-count'' (count_message 2 world0)"
  by (simp add: tick_trace_ok two_claims_def world0_def next_fault_def redis_live_def Getenv_def
      count_message_def before_publish_def from_publish_def writer_eval)

text \<open>
  C2, as the code has it. In a pass whose enumeration succeeds, the events are, in this
  order: the enumeration, the delivery attempts of the writer for the count (the number
  of enumerated keys) with the clock reading taken at that moment, the log line of the
  publisher, and then one delete for each enumerated key.
\<close>

theorem publish_before_delete:
  assumes "\<not> next_fault (redis_faults w)"
  shows "before_publish (drop (length (trace w)) (trace (tick w))) = [RedisKeys ''*''] \<and>
         from_publish (drop (length (trace w)) (trace (tick w))) =
           replicate (write_attempts (produce_replies w))
             (KafkaWrite (Getenv ''KAFKA_TOPIC'' w) ''unique-id-count''
                (count_message (int (length (map fst (redis_live (redis_clock w) (redis w))))) w)) @
           Log (if write_fails (produce_replies w) then LogKafkaWriteFailed
                else LogPublished
                  (count_message (int (length (map fst (redis_live (redis_clock w) (redis w))))) w)) #
           map RedisDel (map fst (redis_live (redis_clock w) (redis w)))"
  using write_attempts_Suc [of "produce_replies w"]
  by (simp add: tick_trace_ok [OF assms] before_publish_def from_publish_def
      del: replicate_Suc)

theorem publish_before_delete_witness:
  "\<not> next_fault [] \<and>
   before_publish (trace (tick two_claims)) = [RedisKeys ''*''] \<and>
   from_publish (trace (tick two_claims)) =
     [KafkaWrite ''unique-id-count'' ''unique-id-count'' (count_message 2 world0),
      Log (LogPublished (count_message 2 world0)), RedisDel ''1'', RedisDel ''2'']"
  using publish_before_delete [of two_claims]
  by (simp add: two_claims_def world0_def next_fault_def redis_live_def Getenv_def
      count_message_def writer_eval)

text \<open>
  C4. The claim has the count of a pass equal the number of distinct identifiers claimed
  since the previous pass. A record expires one minute after its claim, so a claim made
  more than a minute before the enumeration is not counted: after one successful claim of
  5 at instant 0, a pass at 61 seconds publishes the count 0.
\<close>

theorem window_count_counterexample:
  "run_claims [(0, 5)] world0 =
     ([True], world0\<lparr>redis := [(''5'', 60000)], trace := [RedisSetNX ''5'' 60000]\<rparr>) \<and>
   card (set (claimed [(0, 5)] [True])) = 1 \<and>
   filter is_publish
     (trace (tick (world0\<lparr>redis := [(''5'', 60000)], redis_clock := 61000,
                          trace := [RedisSetNX ''5'' 60000]\<rparr>))) =
     [KafkaWrite ''unique-id-count'' ''unique-id-count'' (count_message 0 world0)] \<and>
   count_message 0 world0 \<noteq> count_message 1 world0"
  by (simp add: isUniqueID_ok tick_trace_ok next_fault_def world0_def redis_live_def Itoa_def
      digits.simps digit_char_def Getenv_def count_message_def writer_eval)

text \<open>
  C4, as the code has it. The window starts with the store empty, as a pass whose deletes
  all succeeded leaves it (\<open>tick_drains\<close>), only claims run in it, and every claim is made
  less than a minute before the enumeration of the pass that ends the window. Then every
  identifier is claimed with success at most once, and what the pass sends to the broker
  is the message that carries the number of distinct identifiers whose claim returned
  true, once for each delivery attempt of the writer.
\<close>

theorem window_count:
  assumes "redis w = []"
    and "\<forall>(t, i) \<in> set cs. t \<le> T \<and> T < t + 60000"
    and "run_claims cs w = (bs, w1)"
    and "\<not> next_fault (redis_faults w1)"
  shows "distinct (claimed cs bs) \<and>
         filter is_publish (drop (length (trace w1)) (trace (tick (w1\<lparr>redis_clock := T\<rparr>)))) =
           replicate (write_attempts (produce_replies w1))
             (KafkaWrite (Getenv ''KAFKA_TOPIC'' w1) ''unique-id-count''
                (count_message (int (card (set (claimed cs bs)))) w1))"
proof -
  have inv: "map fst (redis w1) = map Itoa ([] @ claimed cs bs) \<and>
             distinct ([] @ claimed cs bs) \<and> (\<forall>(k, e) \<in> set (redis w1). T < e)"
    by (rule run_claims_window [OF _ _ _ assms(2) assms(3)]) (simp_all add: assms(1))
  then have d: "distinct (claimed cs bs)" by simp
  have live: "redis_live T (redis w1) = redis w1"
    by (rule redis_live_all) (use inv in blast)
  have "length (redis w1) = length (map fst (redis w1))" by simp
  also have "\<dots> = length (claimed cs bs)" using inv by simp
  also have "\<dots> = card (set (claimed cs bs))" using d by (simp add: distinct_card)
  finally have n: "length (redis w1) = card (set (claimed cs bs))" .
  have nf: "\<not> next_fault (redis_faults (w1\<lparr>redis_clock := T\<rparr>))"
    using assms(4) by simp
  show ?thesis
    using d by (simp add: tick_trace_ok [OF nf] live n filter_replicate)
qed

theorem window_count_witness:
  "run_claims [(1000, 5), (2000, 7), (3000, 5)] world0 =
     ([True, True, False],
      world0\<lparr>redis := [(''5'', 61000), (''7'', 62000)], redis_clock := 3000,
             trace := [RedisSetNX ''5'' 60000, RedisSetNX ''7'' 60000, RedisSetNX ''5'' 60000]\<rparr>) \<and>
   claimed [(1000, 5), (2000, 7), (3000, 5)] [True, True, False] = [5, 7] \<and>
   filter is_publish
     (drop 3 (trace (tick (world0\<lparr>redis := [(''5'', 61000), (''7'', 62000)], redis_clock := 60000,
        trace := [RedisSetNX ''5'' 60000, RedisSetNX ''7'' 60000, RedisSetNX ''5'' 60000]\<rparr>)))) =
     [KafkaWrite ''unique-id-count'' ''unique-id-count'' (count_message 2 world0)]"
proof -
  let ?w1 = "world0\<lparr>redis := [(''5'', 61000), (''7'', 62000)], redis_clock := 3000,
             trace := [RedisSetNX ''5'' 60000, RedisSetNX ''7'' 60000, RedisSetNX ''5'' 60000]\<rparr>"
  have r: "run_claims [(1000, 5), (2000, 7), (3000, 5)] world0 = ([True, True, False], ?w1)"
    by (simp add: isUniqueID_ok next_fault_def world0_def redis_live_def Itoa_def digits.simps
        digit_char_def)
  have e: "redis world0 = []" by (simp add: world0_def)
  have nf: "\<not> next_fault (redis_faults ?w1)" by (simp add: world0_def next_fault_def)
  have "filter is_publish (drop (length (trace ?w1)) (trace (tick (?w1\<lparr>redis_clock := 60000\<rparr>)))) =
          replicate (write_attempts (produce_replies ?w1))
            (KafkaWrite (Getenv ''KAFKA_TOPIC'' ?w1) ''unique-id-count''
               (count_message (int (card (set (claimed [(1000, 5), (2000, 7), (3000, 5)]
                  [True, True, False])))) ?w1))"
    using window_count [OF e _ r nf, of 60000] by simp
  then have "filter is_publish
     (drop 3 (trace (tick (world0\<lparr>redis := [(''5'', 61000), (''7'', 62000)], redis_clock := 60000,
        trace := [RedisSetNX ''5'' 60000, RedisSetNX ''7'' 60000, RedisSetNX ''5'' 60000]\<rparr>)))) =
     [KafkaWrite ''unique-id-count'' ''unique-id-count'' (count_message 2 world0)]"
    by (simp add: world0_def Getenv_def count_message_def numeral_3_eq_3 writer_eval)
  with r show ?thesis by simp
qed

section \<open>Start-up\<close>

text \<open>
  C6. \<open>waitForKafka\<close>, called with 10 retries and a delay of 5 seconds, dials the broker
  at most 10 times. When the first 10 dials all fail, each followed by the 5 second sleep,
  \<open>createKafkaTopic\<close> ends the process, and \<open>main\<close> ends there without serving. When a
  dial among the first 10 succeeds and so does the dial that follows it, the process goes
  on whether the topic creation succeeds or fails; a failure is logged.
\<close>

theorem kafka_bootstrap:
  "length (filter is_dial (trace (snd (waitForKafka broker 10 5000 w)))) \<le>
     length (filter is_dial (trace w)) + 10 \<and>
   (take 10 (kafka_faults w) = replicate 10 True \<longrightarrow>
      createKafkaTopic topic broker w =
        Fatal (w\<lparr>kafka_faults := drop 10 (kafka_faults w),
                 trace := trace w @ failed_attempts broker 5000 10 @ [Log LogKafkaNotReady]\<rparr>) \<and>
      (\<not> next_fault (redis_faults w) \<longrightarrow>
         main w =
           Fatal (w\<lparr>redis_faults := tl (redis_faults w),
                    kafka_faults := drop 10 (kafka_faults w),
                    trace := trace w @ [RedisPing] @
                      failed_attempts (Getenv ''KAFKA_BROKER'' w) 5000 10 @
                      [Log LogKafkaNotReady]\<rparr>))) \<and>
   (kafka_faults w = replicate k True @ rest \<and> k < 10 \<and>
    \<not> next_fault rest \<and> \<not> next_fault (tl rest) \<longrightarrow>
      createKafkaTopic topic broker w =
        Continue (w\<lparr>kafka_faults := tl (tl (tl rest)),
                    trace := trace w @ failed_attempts broker 5000 k @
                      [KafkaDial broker, KafkaClose, Log (LogKafkaConnected broker),
                       KafkaDial broker, KafkaCreateTopics topic 1 1,
                       Log (if next_fault (tl (tl rest)) then LogTopicFailed topic
                            else LogTopicCreated topic),
                       KafkaClose]\<rparr>))"
proof (intro conjI impI)
  show "length (filter is_dial (trace (snd (waitForKafka broker 10 5000 w)))) \<le>
        length (filter is_dial (trace w)) + 10"
    using waitForKafka_from_dials [of 0 broker 10 5000 w] by (simp add: waitForKafka_def)
next
  assume a: "take 10 (kafka_faults w) = replicate 10 True"
  show "createKafkaTopic topic broker w =
        Fatal (w\<lparr>kafka_faults := drop 10 (kafka_faults w),
                 trace := trace w @ failed_attempts broker 5000 10 @ [Log LogKafkaNotReady]\<rparr>)"
    by (rule createKafkaTopic_fatal [OF a])
  assume r: "\<not> next_fault (redis_faults w)"
  let ?w1 = "w\<lparr>redis_faults := tl (redis_faults w), trace := trace w @ [RedisPing]\<rparr>"
  have "take 10 (kafka_faults ?w1) = replicate 10 True" using a by simp
  from createKafkaTopic_fatal [OF this, of "''unique-id-count''" "Getenv ''KAFKA_BROKER'' ?w1"]
  show "main w =
        Fatal (w\<lparr>redis_faults := tl (redis_faults w),
                 kafka_faults := drop 10 (kafka_faults w),
                 trace := trace w @ [RedisPing] @
                   failed_attempts (Getenv ''KAFKA_BROKER'' w) 5000 10 @
                   [Log LogKafkaNotReady]\<rparr>)"
    by (simp add: main_def initRedis_ok [OF r] Getenv_def)
next
  assume c: "kafka_faults w = replicate k True @ rest \<and> k < 10 \<and>
             \<not> next_fault rest \<and> \<not> next_fault (tl rest)"
  show "createKafkaTopic topic broker w =
        Continue (w\<lparr>kafka_faults := tl (tl (tl rest)),
                    trace := trace w @ failed_attempts broker 5000 k @
                      [KafkaDial broker, KafkaClose, Log (LogKafkaConnected broker),
                       KafkaDial broker, KafkaCreateTopics topic 1 1,
                       Log (if next_fault (tl (tl rest)) then LogTopicFailed topic
                            else LogTopicCreated topic),
                       KafkaClose]\<rparr>)"
    by (rule createKafkaTopic_continues) (use c in simp_all)
qed

theorem kafka_bootstrap_witness:
  "createKafkaTopic ''unique-id-count'' ''kafka:9092'' (world0\<lparr>kafka_faults := replicate 10 True\<rparr>) =
     Fatal (world0\<lparr>trace := failed_attempts ''kafka:9092'' 5000 10 @ [Log LogKafkaNotReady]\<rparr>) \<and>
   main (world0\<lparr>kafka_faults := replicate 10 True\<rparr>) =
     Fatal (world0\<lparr>trace := [RedisPing] @ failed_attempts ''kafka:9092'' 5000 10 @
                                [Log LogKafkaNotReady]\<rparr>) \<and>
   createKafkaTopic ''unique-id-count'' ''kafka:9092''
       (world0\<lparr>kafka_faults := [True, True, False, False, True]\<rparr>) =
     Continue (world0\<lparr>trace :=
       [KafkaDial ''kafka:9092'', Log (LogKafkaRetry ''kafka:9092'' 5000), Sleep 5000,
        KafkaDial ''kafka:9092'', Log (LogKafkaRetry ''kafka:9092'' 5000), Sleep 5000,
        KafkaDial ''kafka:9092'', KafkaClose, Log (LogKafkaConnected ''kafka:9092''),
        KafkaDial ''kafka:9092'', KafkaCreateTopics ''unique-id-count'' 1 1,
        Log (LogTopicFailed ''unique-id-count''), KafkaClose]\<rparr>)"
  using kafka_bootstrap [of "''kafka:9092''" "world0\<lparr>kafka_faults := replicate 10 True\<rparr>"
          "''unique-id-count''" 0 "[]"]
        kafka_bootstrap [of "''kafka:9092''" "world0\<lparr>kafka_faults := [True, True, False, False, True]\<rparr>"
          "''unique-id-count''" 2 "[False, False, True]"]
  by (simp add: world0_def next_fault_def Getenv_def failed_attempts_def numeral_2_eq_2)

section \<open>The request handler\<close>

text \<open>
  C9. A request whose method is not GET is answered 405, and a GET whose \<open>id\<close> is
  missing, does not parse, or parses to a number that is not positive is answered 400.
  In both cases the response is the only thing that happens: no call reaches the store.
\<close>

theorem invalid_requests_rejected:
  "(Method r \<noteq> ''GET'' \<longrightarrow>
      acceptHandler r w =
        w\<lparr>trace := trace w @ [Respond 405 (''Only GET method is supported'' @ [CHR 0x0A])]\<rparr>) \<and>
   (Method r = ''GET'' \<and>
    (map_of (Query r) ''id'' = None \<or> Atoi (Get (Query r) ''id'') = Inl e \<or>
     Atoi (Get (Query r) ''id'') = Inr n \<and> n \<le> 0) \<longrightarrow>
      acceptHandler r w = w\<lparr>trace := trace w @ [Respond 400 bad_request_body]\<rparr>)"
  by (auto simp: acceptHandler_def http_Error_def emit_def Get_missing Atoi_empty
      bad_request_body_def Let_def)

theorem invalid_requests_rejected_witness:
  "acceptHandler \<lparr>Method = ''POST'', Query = [(''id'', ''5'')]\<rparr> world0 =
     world0\<lparr>trace := [Respond 405 (''Only GET method is supported'' @ [CHR 0x0A])]\<rparr> \<and>
   acceptHandler \<lparr>Method = ''GET'', Query = [(''endpoint'', ''http://cb'')]\<rparr> world0 =
     world0\<lparr>trace := [Respond 400 bad_request_body]\<rparr> \<and>
   Atoi ''abc'' = Inl NumError \<and>
   acceptHandler (get_request ''abc'' []) world0 =
     world0\<lparr>trace := [Respond 400 bad_request_body]\<rparr> \<and>
   Atoi ''-3'' = Inr (- 3) \<and>
   acceptHandler (get_request ''-3'' []) world0 =
     world0\<lparr>trace := [Respond 400 bad_request_body]\<rparr>"
  using invalid_requests_rejected [of "\<lparr>Method = ''POST'', Query = [(''id'', ''5'')]\<rparr>" world0]
    invalid_requests_rejected [of "\<lparr>Method = ''GET'', Query = [(''endpoint'', ''http://cb'')]\<rparr>" world0]
    invalid_requests_rejected [where r = "get_request ''abc'' []" and e = NumError and w = world0]
    invalid_requests_rejected [where r = "get_request ''-3'' []" and n = "- 3" and w = world0]
  by (simp add: get_request_def world0_def Get_def Atoi_def is_digit_def undigits_def digit_val_def)

text \<open>
  C5. The claim has the notification sent for every valid request with an endpoint,
  duplicate or not. The handler returns right after the duplicate response: a duplicate
  request with an endpoint enumerates nothing and starts no notification.
\<close>

theorem notification_on_duplicate_counterexample:
  "Atoi ''5'' = Inr 5 \<and>
   trace (acceptHandler (get_request ''5'' ''http://cb'') dup_world) =
     [RedisSetNX ''5'' 60000, Respond 200 ''ok (duplicate), retry with different id''] \<and>
   filter is_notification (trace (acceptHandler (get_request ''5'' ''http://cb'') dup_world)) = []"
proof -
  have a: "Atoi ''5'' = Inr 5"
    by (simp add: Atoi_def is_digit_def undigits_def digit_val_def)
  have u: "\<not> fst (isUniqueID 5 dup_world)"
    by (simp add: isUniqueID_ok next_fault_def dup_world_def world0_def redis_live_def Itoa_small)
  have "trace (acceptHandler (get_request ''5'' ''http://cb'') dup_world) =
     [RedisSetNX ''5'' 60000, Respond 200 ''ok (duplicate), retry with different id'']"
    using acceptHandler_duplicate_trace [of "get_request ''5'' ''http://cb''" 5 dup_world] u
    by (simp add: a get_request_def Get_def Itoa_small)
       (simp add: dup_world_def world0_def next_fault_def)
  then show ?thesis by (simp add: a)
qed

text \<open>
  C5, as the code has it. Take a valid request with a non-empty endpoint. When its claim
  is unique, the handler writes the response, then enumerates the store (a failed
  enumeration counts as 0), then starts \<open>sendCountToEndpoint\<close> in the background with
  that count. When its claim is not unique, the handler writes the duplicate response and
  does nothing else: no enumeration, no notification. \<open>sendCountToEndpoint\<close> first POSTs
  the payload to the endpoint; when the answer is not a redirect, also when there is no
  answer, that POST and one log line are all it does. The HTTP client follows redirects
  and sends at most 10 requests in all. \<open>sendCountToEndpoint\<close> writes no response.
\<close>

theorem notification_only_for_unique_claims:
  assumes "Method r = ''GET''" and "Atoi (Get (Query r) ''id'') = Inr i" and "0 < i"
    and "Get (Query r) ''endpoint'' = endpoint" and "endpoint \<noteq> []"
  shows "(fst (isUniqueID i w) \<longrightarrow>
            trace (acceptHandler r w) =
              trace w @
              [RedisSetNX (Itoa i) 60000, Respond 200 ''ok'', RedisKeys ''*'',
               Go (SendCount endpoint
                     (if next_fault (redis_faults (snd (isUniqueID i w))) then 0
                      else int (length (redis_live (redis_clock w)
                                 (redis (snd (isUniqueID i w)))))))]) \<and>
         (\<not> fst (isUniqueID i w) \<longrightarrow>
            trace (acceptHandler r w) =
              trace w @ RedisSetNX (Itoa i) 60000 #
              (if next_fault (redis_faults w) then [Log LogSetNXError] else []) @
              [Respond 200 ''ok (duplicate), retry with different id'']) \<and>
         take 1 (drop (length (trace w')) (trace (sendCountToEndpoint endpoint count w'))) =
           [HttpPost endpoint ''application/json'' (count_message count w')] \<and>
         length (filter is_http_request
                   (drop (length (trace w')) (trace (sendCountToEndpoint endpoint count w')))) \<le> 10 \<and>
         filter is_response (trace (sendCountToEndpoint endpoint count w')) =
           filter is_response (trace w') \<and>
         (\<not> redirects (next_http (http_replies w')) \<longrightarrow>
            sendCountToEndpoint endpoint count w' =
              w'\<lparr>http_replies := tl (http_replies w'),
                 trace := trace w' @
                   [HttpPost endpoint ''application/json'' (count_message count w'),
                    Log (post_log endpoint (next_http (http_replies w')))]\<rparr>)"
proof -
  obtain evs l where e:
      "trace (sendCountToEndpoint endpoint count w') = trace w' @ evs @ [Log l]"
      "filter is_http_request evs = evs" "filter is_response evs = []" "length evs \<le> 10"
      "take 1 evs = [HttpPost endpoint ''application/json'' (count_message count w')]"
    using sendCountToEndpoint_events [of endpoint count w'] by auto
  have a: "take 1 (drop (length (trace w')) (trace (sendCountToEndpoint endpoint count w'))) =
             [HttpPost endpoint ''application/json'' (count_message count w')]"
    using e(5) by (cases evs) (simp_all add: e(1))
  have b: "length (filter is_http_request
             (drop (length (trace w')) (trace (sendCountToEndpoint endpoint count w')))) \<le> 10"
    using e(2,4) by (simp add: e(1))
  have c: "filter is_response (trace (sendCountToEndpoint endpoint count w')) =
             filter is_response (trace w')"
    using e(3) by (simp add: e(1))
  have u: "fst (isUniqueID i w) \<Longrightarrow>
            trace (acceptHandler r w) =
              trace w @
              [RedisSetNX (Itoa i) 60000, Respond 200 ''ok'', RedisKeys ''*'',
               Go (SendCount endpoint
                     (if next_fault (redis_faults (snd (isUniqueID i w))) then 0
                      else int (length (redis_live (redis_clock w)
                                 (redis (snd (isUniqueID i w)))))))]"
    using acceptHandler_unique_trace [OF assms(1-3)] assms(4,5) by simp
  have d: "\<not> fst (isUniqueID i w) \<Longrightarrow>
            trace (acceptHandler r w) =
              trace w @ RedisSetNX (Itoa i) 60000 #
              (if next_fault (redis_faults w) then [Log LogSetNXError] else []) @
              [Respond 200 ''ok (duplicate), retry with different id'']"
    by (rule acceptHandler_duplicate_trace [OF assms(1-3)])
  show ?thesis
    using a b c u d sendCountToEndpoint_last [of w' endpoint count] by blast
qed

theorem notification_only_for_unique_claims_witness:
  "Atoi ''5'' = Inr 5 \<and> fst (isUniqueID 5 world0) \<and> \<not> fst (isUniqueID 5 dup_world) \<and>
   trace (acceptHandler (get_request ''5'' ''http://cb'') world0) =
     [RedisSetNX ''5'' 60000, Respond 200 ''ok'', RedisKeys ''*'', Go (SendCount ''http://cb'' 1)] \<and>
   trace (acceptHandler (get_request ''5'' ''http://cb'') dup_world) =
     [RedisSetNX ''5'' 60000, Respond 200 ''ok (duplicate), retry with different id''] \<and>
   trace (sendCountToEndpoint ''http://cb'' 1 (world0\<lparr>http_replies := [NoResponse]\<rparr>)) =
     [HttpPost ''http://cb'' ''application/json'' (count_message 1 world0),
      Log (LogPostError ''http://cb'')] \<and>
   trace (sendCountToEndpoint ''http://cb'' 1
            (world0\<lparr>http_replies := [Response 307 ''http://other'', Response 500 []]\<rparr>)) =
     [HttpPost ''http://cb'' ''application/json'' (count_message 1 world0),
      HttpPost ''http://other'' ''application/json'' (count_message 1 world0),
      Log (LogSent ''http://cb'' 500)]"
proof -
  have a: "Atoi ''5'' = Inr 5"
    by (simp add: Atoi_def is_digit_def undigits_def digit_val_def)
  have u: "isUniqueID 5 world0 =
             (True, world0\<lparr>redis := [(''5'', 60000)], trace := [RedisSetNX ''5'' 60000]\<rparr>)"
    by (simp add: isUniqueID_ok next_fault_def world0_def redis_live_def Itoa_small)
  have d: "\<not> fst (isUniqueID 5 dup_world)"
    by (simp add: isUniqueID_ok next_fault_def dup_world_def world0_def redis_live_def Itoa_small)
  have v: "Method (get_request ''5'' ''http://cb'') = ''GET''"
          "Atoi (Get (Query (get_request ''5'' ''http://cb'')) ''id'') = Inr 5"
          "(0::int) < 5"
          "Get (Query (get_request ''5'' ''http://cb'')) ''endpoint'' = ''http://cb''"
          "''http://cb'' \<noteq> []"
    by (simp_all add: a get_request_def Get_def)
  note th1 = notification_only_for_unique_claims [OF v, where w = world0 and count = 1
      and w' = "world0\<lparr>http_replies := [NoResponse]\<rparr>"]
  note th2 = notification_only_for_unique_claims [OF v, where w = dup_world and count = 1
      and w' = world0]
  have t1: "trace (acceptHandler (get_request ''5'' ''http://cb'') world0) =
     [RedisSetNX ''5'' 60000, Respond 200 ''ok'', RedisKeys ''*'', Go (SendCount ''http://cb'' 1)]"
    using th1 by (simp add: u Itoa_small) (simp add: world0_def next_fault_def redis_live_def)
  have t2: "trace (acceptHandler (get_request ''5'' ''http://cb'') dup_world) =
     [RedisSetNX ''5'' 60000, Respond 200 ''ok (duplicate), retry with different id'']"
    using th2 d by (simp add: Itoa_small) (simp add: dup_world_def world0_def next_fault_def)
  have t3: "trace (sendCountToEndpoint ''http://cb'' 1 (world0\<lparr>http_replies := [NoResponse]\<rparr>)) =
     [HttpPost ''http://cb'' ''application/json'' (count_message 1 world0),
      Log (LogPostError ''http://cb'')]"
    using th1 by (simp add: next_http_def) (simp add: world0_def count_message_def)
  have t4: "trace (sendCountToEndpoint ''http://cb'' 1
            (world0\<lparr>http_replies := [Response 307 ''http://other'', Response 500 []]\<rparr>)) =
     [HttpPost ''http://cb'' ''application/json'' (count_message 1 world0),
      HttpPost ''http://other'' ''application/json'' (count_message 1 world0),
      Log (LogSent ''http://cb'' 500)]"
    by (simp add: sendCountToEndpoint_trace http_Post_def client_do.simps next_http_def
        emit_def world0_def count_message_def)
  show ?thesis using a u d t1 t2 t3 t4 by simp
qed

end
